theory Spec2Isabelle
  imports Main
begin

section \<open>Coordination storage on MySQL: the model\<close>

text \<open>
  A shallow embedding of \<^verbatim>\<open>src/mysql_storage.ts\<close> (class \<^verbatim>\<open>MySqlStorage\<close>).
  Every method takes the state of the storage object and of the database and returns
  the arguments its callback receives together with the new state. Time is read from
  the environment: all \<^verbatim>\<open>Date.now()\<close> and \<^verbatim>\<open>new Date()\<close> of one call
  of a public method read the same instant \<open>now env\<close> (milliseconds). The methods
  \<^verbatim>\<open>init\<close>, \<^verbatim>\<open>close\<close>, \<^verbatim>\<open>getProperties\<close>, \<^verbatim>\<open>registerWorker\<close>,
  \<^verbatim>\<open>announceLeaderCandidacy\<close> and \<^verbatim>\<open>checkLeaderCandidacy\<close> are left out: no
  property below is about them.
\<close>

subsection \<open>Vocabulary of the framework\<close>

text \<open>
  The constants of \<^verbatim>\<open>qtopology.Consts\<close> are strings of the external framework; the
  code compares them with \<^verbatim>\<open>==\<close> and \<^verbatim>\<open>!=\<close>.
\<close>

abbreviation WorkerStatus_alive :: string where "WorkerStatus_alive \<equiv> ''alive''"
abbreviation WorkerStatus_dead :: string where "WorkerStatus_dead \<equiv> ''dead''"
abbreviation WorkerStatus_unloaded :: string where "WorkerStatus_unloaded \<equiv> ''unloaded''"

abbreviation WorkerLStatus_leader :: string where "WorkerLStatus_leader \<equiv> ''leader''"
abbreviation WorkerLStatus_candidate :: string where "WorkerLStatus_candidate \<equiv> ''candidate''"
abbreviation WorkerLStatus_normal :: string where "WorkerLStatus_normal \<equiv> ''normal''"

abbreviation TopologyStatus_running :: string where "TopologyStatus_running \<equiv> ''running''"
abbreviation TopologyStatus_waiting :: string where "TopologyStatus_waiting \<equiv> ''waiting''"
abbreviation TopologyStatus_error :: string where "TopologyStatus_error \<equiv> ''error''"
abbreviation TopologyStatus_unassigned :: string where "TopologyStatus_unassigned \<equiv> ''unassigned''"

abbreviation LeadershipStatus_vacant :: string where "LeadershipStatus_vacant \<equiv> ''vacant''"
abbreviation LeadershipStatus_pending :: string where "LeadershipStatus_pending \<equiv> ''pending''"
abbreviation LeadershipStatus_ok :: string where "LeadershipStatus_ok \<equiv> ''ok''"

abbreviation LeaderMessages_stop_topology :: string where "LeaderMessages_stop_topology \<equiv> ''stop_topology''"
abbreviation LeaderMessages_shutdown :: string where "LeaderMessages_shutdown \<equiv> ''shutdown''"

subsection \<open>Errors and the environment\<close>

text \<open>
  \<open>PersistenceFailure n\<close> is the error the connection pool hands to the callback of the
  \<open>n\<close>-th statement sent by this object; \<open>Error msg\<close> is \<^verbatim>\<open>new Error(msg)\<close>;
  \<open>TypeError\<close> is the exception of the runtime for a property read on \<^verbatim>\<open>undefined\<close>.
\<close>

datatype error = PersistenceFailure nat | Error string | TypeError string

text \<open>
  The environment of one call: the clock, which statements the database fails, and
  \<^verbatim>\<open>Date.prototype.getDate\<close> (day of the month) of the runtime.
\<close>

record env =
  now :: int
  db_fails :: "nat \<Rightarrow> bool"
  getDate :: "int \<Rightarrow> int"

subsection \<open>Tables\<close>

text \<open>
  Rows carry the columns the code reads or writes. A \<^verbatim>\<open>Date\<close> is its time value in
  milliseconds. The worker's \<^verbatim>\<open>last_ping\<close> is nullable (the code guards it with
  \<^verbatim>\<open>||\<close>); the \<^verbatim>\<open>last_ping\<close> of a topology and of a history row is not (the code
  calls \<^verbatim>\<open>getDate\<close> on it unguarded).
\<close>

record worker_row =
  w_name :: string
  w_status :: string
  w_lstatus :: string
  w_last_ping :: "int option"

record worker_history_row =
  wh_ts :: int
  wh_name :: string
  wh_status :: string
  wh_lstatus :: string

text \<open>
  A topology configuration as far as the code looks into it: the \<^verbatim>\<open>general\<close> section
  with its optional \<^verbatim>\<open>worker_affinity\<close> and \<^verbatim>\<open>weight\<close>; the rest is an opaque payload.
  The stored JSON text is identified with the value it denotes
  (\<^verbatim>\<open>JSON.parse(JSON.stringify(c))\<close> gives \<open>c\<close> back).
\<close>

record general_section =
  g_worker_affinity :: "string list option"
  g_weight :: "int option"

record config =
  c_general :: "general_section option"
  c_payload :: string

record topology_row =
  t_uuid :: string
  t_config :: config
  t_status :: string
  t_worker :: "string option"
  t_weight :: int
  t_worker_affinity :: "string option"
  t_error :: "string option"
  t_last_ping :: int
  t_enabled :: int

record topology_history_row =
  th_ts :: int
  th_uuid :: string
  th_status :: string
  th_worker :: "string option"
  th_weight :: int
  th_worker_affinity :: "string option"
  th_error :: "string option"
  th_last_ping :: int
  th_enabled :: int

record message_row =
  m_id :: nat
  m_worker :: string
  m_cmd :: string
  m_content :: string
  m_created :: int
  m_valid_until :: int

record db =
  qtopology_worker :: "worker_row list"
  qtopology_worker_history :: "worker_history_row list"
  qtopology_topology :: "topology_row list"
  qtopology_topology_history :: "topology_history_row list"
  qtopology_message :: "message_row list"
  message_auto_increment :: nat

text \<open>
  The storage object: \<^verbatim>\<open>this.name\<close>, \<^verbatim>\<open>this.next_refresh\<close>, the database behind
  \<^verbatim>\<open>this.pool\<close>, and the number of statements sent through \<^verbatim>\<open>query\<close> so far
  (each one is written to the log by \<^verbatim>\<open>this.log\<close>).
\<close>

record state =
  this_name :: "string option"
  next_refresh :: int
  queries :: nat
  db :: db

definition constructor :: "db \<Rightarrow> state" where
  "constructor d = \<lparr> this_name = None, next_refresh = 0, queries = 0, db = d \<rparr>"

subsection \<open>query\<close>

text \<open>
  \<^verbatim>\<open>query(sql, obj, callback)\<close>: the statement is logged and sent; the callback gets the
  error of the pool or the rows. A statement is given by what it does to the database.
  A failed statement leaves the database as it was.
\<close>

definition query :: "env \<Rightarrow> (db \<Rightarrow> 'r \<times> db) \<Rightarrow> state \<Rightarrow> (error + 'r) \<times> state" where
  "query env sql s =
     (let n = queries s; s1 = s\<lparr>queries := Suc n\<rparr> in
      if db_fails env n then (Inl (PersistenceFailure n), s1)
      else (case sql (db s1) of (data, d) \<Rightarrow> (Inr data, s1\<lparr>db := d\<rparr>)))"

text \<open>A \<^verbatim>\<open>SimpleCallback\<close> passed to \<^verbatim>\<open>query\<close> directly keeps the error only.\<close>

definition simple :: "(error + 'r) \<times> state \<Rightarrow> error option \<times> state" where
  "simple r = (case r of (Inl err, s) \<Rightarrow> (Some err, s) | (Inr data, s) \<Rightarrow> (None, s))"

subsection \<open>The control flow of the async library\<close>

text \<open>
  \<^verbatim>\<open>async.each(coll, iteratee, callback)\<close> starts the iteratee on every item; an error
  does not cancel the others, and the callback gets one error if any item failed. The
  concurrent items are run here in the order of the collection, and the error reported
  is that of the first failing item in that order.
\<close>

fun each :: "'a list \<Rightarrow> ('a \<Rightarrow> state \<Rightarrow> error option \<times> state) \<Rightarrow> state \<Rightarrow> error option \<times> state" where
  "each [] iteratee s = (None, s)"
| "each (item # coll) iteratee s =
     (case iteratee item s of (err, s1) \<Rightarrow>
        (case each coll iteratee s1 of (err', s2) \<Rightarrow>
           ((case err of Some e \<Rightarrow> Some e | None \<Rightarrow> err'), s2)))"

text \<open>\<^verbatim>\<open>async.series(tasks, callback)\<close> runs the tasks in order and stops at the first error.\<close>

fun series :: "(state \<Rightarrow> error option \<times> state) list \<Rightarrow> state \<Rightarrow> error option \<times> state" where
  "series [] s = (None, s)"
| "series (task # tasks) s =
     (case task s of (Some err, s1) \<Rightarrow> (Some err, s1) | (None, s1) \<Rightarrow> series tasks s1)"

subsection \<open>The persistence collaborator: workers\<close>

text \<open>
  \<^verbatim>\<open>query_helper\<close> and the stored routines of the database are not in the source
  files. Section 6 of the specification gives the collaborator's capabilities:
  \<^verbatim>\<open>select(table, columns, filter)\<close> returns the rows of the table that match the
  filter; \<^verbatim>\<open>update(table, fields, filter)\<close> sets the fields in every row that
  matches; the history routine appends one history row, a copy of the entity's current
  row stamped with the time, in the same statement as the update.
\<close>

text \<open>
  Modelled from the spec: \<^verbatim>\<open>createSelect\<close> of the absent \<^verbatim>\<open>query_helper\<close> on the worker
  table, with the empty filter.
\<close>

definition sql_select_worker :: "db \<Rightarrow> worker_row list \<times> db" where
  "sql_select_worker d = (qtopology_worker d, d)"

text \<open>
  Modelled from the spec: \<^verbatim>\<open>createUpdate\<close> of the absent \<^verbatim>\<open>query_helper\<close> on the worker
  table, with the filter on the name.
\<close>

definition sql_update_worker :: "(worker_row \<Rightarrow> worker_row) \<Rightarrow> string \<Rightarrow> db \<Rightarrow> db" where
  "sql_update_worker assign name d =
     d\<lparr>qtopology_worker := map (\<lambda>w. if w_name w = name then assign w else w) (qtopology_worker d)\<rparr>"

text \<open>
  Modelled from the spec: the absent routine \<^verbatim>\<open>qtopology_sp_add_worker_history\<close>, which
  appends the history row of the named worker.
\<close>

definition qtopology_sp_add_worker_history :: "int \<Rightarrow> string \<Rightarrow> db \<Rightarrow> db" where
  "qtopology_sp_add_worker_history ts name d =
     d\<lparr>qtopology_worker_history := qtopology_worker_history d @
          map (\<lambda>w. \<lparr>wh_ts = ts, wh_name = w_name w, wh_status = w_status w, wh_lstatus = w_lstatus w\<rparr>)
              (filter (\<lambda>w. w_name w = name) (qtopology_worker d))\<rparr>"

subsection \<open>Reading and writing workers\<close>

record WorkerStatus =
  ws_name :: string
  ws_status :: string
  ws_lstatus :: string
  ws_last_ping :: int
  ws_last_ping_d :: int

definition getWorkerStatusInternal :: "env \<Rightarrow> state \<Rightarrow> (error + WorkerStatus list) \<times> state" where
  "getWorkerStatusInternal env s =
     (case query env sql_select_worker s of
        (Inl err, s1) \<Rightarrow> (Inl err, s1)
      | (Inr data, s1) \<Rightarrow>
          (Inr (map (\<lambda>rec.
                  let last_ping = (case w_last_ping rec of None \<Rightarrow> now env | Some d \<Rightarrow> d) in
                  \<lparr>ws_name = w_name rec, ws_status = w_status rec, ws_lstatus = w_lstatus rec,
                   ws_last_ping = last_ping, ws_last_ping_d = last_ping\<rparr>) data), s1))"

definition setWorkerStatus :: "env \<Rightarrow> string \<Rightarrow> string \<Rightarrow> state \<Rightarrow> error option \<times> state" where
  "setWorkerStatus env name status s =
     simple (query env
       (\<lambda>d. ((), qtopology_sp_add_worker_history (now env) name
                  (sql_update_worker (\<lambda>w. w\<lparr>w_status := status, w_last_ping := Some (now env)\<rparr>) name d))) s)"

definition setWorkerLStatus :: "env \<Rightarrow> string \<Rightarrow> string \<Rightarrow> state \<Rightarrow> error option \<times> state" where
  "setWorkerLStatus env name lstatus s =
     simple (query env
       (\<lambda>d. ((), qtopology_sp_add_worker_history (now env) name
                  (sql_update_worker (\<lambda>w. w\<lparr>w_lstatus := lstatus, w_last_ping := Some (now env)\<rparr>) name d))) s)"

subsection \<open>The worker liveness sweep\<close>

definition disableDefunctWorkerSingle :: "env \<Rightarrow> WorkerStatus \<Rightarrow> state \<Rightarrow> error option \<times> state" where
  "disableDefunctWorkerSingle env worker s =
     (let limit1 = now env - 30 * 1000;
          limit2 = now env - 10 * 1000 in
      series
        [ (\<lambda>s. if ws_status worker \<noteq> WorkerStatus_alive then (None, s)
               else if ws_last_ping worker \<ge> limit1 then (None, s)
               else setWorkerStatus env (ws_name worker) WorkerStatus_dead s),
          (\<lambda>s. if ws_lstatus worker \<noteq> WorkerLStatus_normal \<and> ws_status worker \<noteq> WorkerStatus_alive
               then setWorkerLStatus env (ws_name worker) WorkerLStatus_normal s
               else if ws_lstatus worker \<noteq> WorkerLStatus_normal \<and> ws_last_ping worker < limit2
               then setWorkerLStatus env (ws_name worker) WorkerLStatus_normal s
               else (None, s)) ] s)"

definition disableDefunctWorkers :: "env \<Rightarrow> state \<Rightarrow> error option \<times> state" where
  "disableDefunctWorkers env s =
     (case getWorkerStatusInternal env s of
        (Inl err, s1) \<Rightarrow> (Some err, s1)
      | (Inr data, s1) \<Rightarrow> each data (disableDefunctWorkerSingle env) s1)"

subsection \<open>The persistence collaborator: topologies\<close>

text \<open>
  Modelled from the spec: \<^verbatim>\<open>createSelect\<close> of the absent \<^verbatim>\<open>query_helper\<close> on the
  topology table. A column that the select does not list is absent from the rows it
  returns; of the columns the code reads afterwards this matters for \<^verbatim>\<open>error\<close> only,
  which then reads as undefined.
\<close>

definition sql_select_topology ::
    "string list \<Rightarrow> (topology_row \<Rightarrow> bool) \<Rightarrow> db \<Rightarrow> topology_row list \<times> db" where
  "sql_select_topology columns matches d =
     (map (\<lambda>t. if ''error'' \<in> set columns then t else t\<lparr>t_error := None\<rparr>)
          (filter matches (qtopology_topology d)), d)"

text \<open>
  Modelled from the spec: \<^verbatim>\<open>createUpdate\<close> of the absent \<^verbatim>\<open>query_helper\<close> on the topology
  table, with the filter on the uuid.
\<close>

definition sql_update_topology :: "(topology_row \<Rightarrow> topology_row) \<Rightarrow> string \<Rightarrow> db \<Rightarrow> db" where
  "sql_update_topology assign uuid d =
     d\<lparr>qtopology_topology := map (\<lambda>t. if t_uuid t = uuid then assign t else t) (qtopology_topology d)\<rparr>"

text \<open>
  Modelled from the spec: the absent routine \<^verbatim>\<open>qtopology_sp_add_topology_history\<close>, which
  appends the history row of the topology with the uuid.
\<close>

definition qtopology_sp_add_topology_history :: "int \<Rightarrow> string \<Rightarrow> db \<Rightarrow> db" where
  "qtopology_sp_add_topology_history ts uuid d =
     d\<lparr>qtopology_topology_history := qtopology_topology_history d @
          map (\<lambda>t. \<lparr>th_ts = ts, th_uuid = t_uuid t, th_status = t_status t, th_worker = t_worker t,
                    th_weight = t_weight t, th_worker_affinity = t_worker_affinity t,
                    th_error = t_error t, th_last_ping = t_last_ping t, th_enabled = t_enabled t\<rparr>)
              (filter (\<lambda>t. t_uuid t = uuid) (qtopology_topology d))\<rparr>"

subsection \<open>Writing topologies\<close>

definition setTopologyStatus ::
    "env \<Rightarrow> string \<Rightarrow> string \<Rightarrow> string option \<Rightarrow> state \<Rightarrow> error option \<times> state" where
  "setTopologyStatus env uuid status error s =
     simple (query env
       (\<lambda>d. ((), qtopology_sp_add_topology_history (now env) uuid
                  (sql_update_topology
                     (\<lambda>t. t\<lparr>t_status := status, t_last_ping := now env, t_error := error\<rparr>) uuid d))) s)"

subsection \<open>Strings\<close>

text \<open>\<^verbatim>\<open>s.split(",")\<close> and \<^verbatim>\<open>xs.join(",")\<close>.\<close>

fun split_comma :: "string \<Rightarrow> string list" where
  "split_comma [] = [[]]"
| "split_comma (c # cs) =
     (if c = CHR '','' then [] # split_comma cs
      else (case split_comma cs of [] \<Rightarrow> [[c]] | w # ws \<Rightarrow> (c # w) # ws))"

fun join_comma :: "string list \<Rightarrow> string" where
  "join_comma [] = []"
| "join_comma [x] = x"
| "join_comma (x # y # ys) = x @ '','' @ join_comma (y # ys)"

subsection \<open>What the worker sweep leaves alone\<close>

text \<open>
  The sweep touches neither \<^verbatim>\<open>this.next_refresh\<close> nor \<^verbatim>\<open>this.name\<close>; the refresh
  below terminates because of it.
\<close>

lemma query_frame:
  "query env sql s = (r, s') \<Longrightarrow>
     next_refresh s' = next_refresh s \<and> this_name s' = this_name s \<and> queries s' = Suc (queries s)"
  by (auto simp: query_def Let_def split: if_splits prod.splits)

lemma series_preserves:
  assumes "\<And>t s r s'. t \<in> set tasks \<Longrightarrow> t s = (r, s') \<Longrightarrow> g s' = g s"
    and "series tasks s = (r, s')"
  shows "g s' = g s"
  using assms
proof (induction tasks arbitrary: s)
  case Nil
  then show ?case by simp
next
  case (Cons t tasks)
  obtain e s1 where t: "t s = (e, s1)" by (cases "t s")
  have s1: "g s1 = g s" using Cons.prems(1)[of t s e s1] t by simp
  show ?case
  proof (cases e)
    case None
    then have "series tasks s1 = (r, s')" using Cons.prems(2) t by simp
    then have "g s' = g s1"
      using Cons.IH[of s1] Cons.prems(1) by (meson list.set_intros(2))
    then show ?thesis using s1 by simp
  next
    case (Some a)
    then show ?thesis using Cons.prems(2) t s1 by simp
  qed
qed

lemma each_preserves:
  assumes "\<And>x s r s'. x \<in> set coll \<Longrightarrow> f x s = (r, s') \<Longrightarrow> g s' = g s"
    and "each coll f s = (r, s')"
  shows "g s' = g s"
  using assms
proof (induction coll arbitrary: s r s')
  case Nil
  then show ?case by simp
next
  case (Cons x coll)
  obtain e s1 where x: "f x s = (e, s1)" by (cases "f x s")
  obtain e' s2 where rest: "each coll f s1 = (e', s2)" by (cases "each coll f s1")
  have "g s1 = g s" using Cons.prems(1)[of x s e s1] x by simp
  moreover have "g s2 = g s1"
    using Cons.IH[of s1 e' s2] rest Cons.prems(1) by (meson list.set_intros(2))
  moreover have "s' = s2" using Cons.prems(2) x rest by simp
  ultimately show ?case by simp
qed

lemma getWorkerStatusInternal_next_refresh:
  "getWorkerStatusInternal env s = (r, s') \<Longrightarrow> next_refresh s' = next_refresh s"
  by (auto simp: getWorkerStatusInternal_def split: prod.splits sum.splits dest: query_frame)

lemma setWorkerStatus_next_refresh:
  "setWorkerStatus env name status s = (r, s') \<Longrightarrow> next_refresh s' = next_refresh s"
  by (auto simp: setWorkerStatus_def simple_def split: prod.splits sum.splits dest: query_frame)

lemma setWorkerLStatus_next_refresh:
  "setWorkerLStatus env name status s = (r, s') \<Longrightarrow> next_refresh s' = next_refresh s"
  by (auto simp: setWorkerLStatus_def simple_def split: prod.splits sum.splits dest: query_frame)

lemma disableDefunctWorkerSingle_next_refresh:
  "disableDefunctWorkerSingle env worker s = (r, s') \<Longrightarrow> next_refresh s' = next_refresh s"
  unfolding disableDefunctWorkerSingle_def Let_def
  by (erule series_preserves[rotated])
     (auto split: if_splits dest: setWorkerStatus_next_refresh setWorkerLStatus_next_refresh)

lemma disableDefunctWorkers_next_refresh:
  "disableDefunctWorkers env s = (r, s') \<Longrightarrow> next_refresh s' = next_refresh s"
proof -
  assume a: "disableDefunctWorkers env s = (r, s')"
  obtain x s1 where g: "getWorkerStatusInternal env s = (x, s1)"
    by (cases "getWorkerStatusInternal env s")
  have s1: "next_refresh s1 = next_refresh s" using g by (rule getWorkerStatusInternal_next_refresh)
  show ?thesis
  proof (cases x)
    case (Inl err)
    then show ?thesis using a g s1 by (simp add: disableDefunctWorkers_def)
  next
    case (Inr data)
    then have "each data (disableDefunctWorkerSingle env) s1 = (r, s')"
      using a g by (simp add: disableDefunctWorkers_def)
    then have "next_refresh s' = next_refresh s1"
      by (rule each_preserves[rotated]) (rule disableDefunctWorkerSingle_next_refresh)
    then show ?thesis using s1 by simp
  qed
qed

text \<open>A task of a series runs in the state its predecessors have left, and only if none failed.\<close>

lemma series_cong [fundef_cong]:
  "s = s' \<Longrightarrow> task s' = task' s' \<Longrightarrow>
   (\<And>s1. task' s' = (None, s1) \<Longrightarrow> series tasks s1 = series tasks' s1) \<Longrightarrow>
   series (task # tasks) s = series (task' # tasks') s'"
  by (auto split: prod.splits option.splits)

subsection \<open>The refresh and the topology reassignment sweep\<close>

text \<open>
  \<^verbatim>\<open>refreshStatuses\<close> runs the two sweeps; \<^verbatim>\<open>unassignWaitingTopologies\<close> reads the
  topologies through the public \<^verbatim>\<open>getTopologyStatus\<close>, which itself starts with
  \<^verbatim>\<open>refreshStatuses\<close>: the four methods are mutually recursive. \<^verbatim>\<open>!!rec.enabled\<close> is
  true for a number other than 0; \<^verbatim>\<open>dead_workers.indexOf(w) >= 0\<close> is membership, and
  never holds of a null worker.
\<close>

record TopologyStatus =
  ts_uuid :: string
  ts_status :: string
  ts_worker :: "string option"
  ts_weight :: int
  ts_enabled :: bool
  ts_error :: "string option"
  ts_last_ping :: int
  ts_worker_affinity :: "string list"

function refreshStatuses :: "env \<Rightarrow> state \<Rightarrow> error option \<times> state"
  and unassignWaitingTopologies :: "env \<Rightarrow> state \<Rightarrow> error option \<times> state"
  and getTopologyStatus :: "env \<Rightarrow> state \<Rightarrow> (error + TopologyStatus list) \<times> state"
  and getTopologyStatusInternal ::
    "env \<Rightarrow> (db \<Rightarrow> topology_row list \<times> db) \<Rightarrow> state \<Rightarrow> (error + TopologyStatus list) \<times> state"
where
  "refreshStatuses env s =
     (if now env < next_refresh s then (None, s)
      else series
             [ (\<lambda>s. disableDefunctWorkers env s),
               (\<lambda>s. unassignWaitingTopologies env s) ]
             (s\<lparr>next_refresh := now env + 1000\<rparr>))"
| "unassignWaitingTopologies env s =
     (case getWorkerStatusInternal env s of
        (Inl err, s1) \<Rightarrow> (Some err, s1)
      | (Inr data_workers, s1) \<Rightarrow>
          (let dead_workers =
                 map ws_name
                   (filter (\<lambda>x. ws_status x = WorkerStatus_dead \<or> ws_status x = WorkerStatus_unloaded)
                      data_workers) in
           case getTopologyStatus env s1 of
             (Inl err, s2) \<Rightarrow> (Some err, s2)
           | (Inr data, s2) \<Rightarrow>
               (let limit = now env - 30 * 1000 in
                each data
                  (\<lambda>topology s.
                     if ts_status topology = TopologyStatus_waiting \<and> ts_last_ping topology < limit
                     then setTopologyStatus env (ts_uuid topology) TopologyStatus_unassigned None s
                     else if ts_status topology = TopologyStatus_running
                             \<and> ts_worker topology \<in> set (map Some dead_workers)
                     then setTopologyStatus env (ts_uuid topology) TopologyStatus_unassigned None s
                     else (None, s))
                  s2)))"
| "getTopologyStatus env s =
     getTopologyStatusInternal env
       (sql_select_topology
          [''uuid'', ''status'', ''worker'', ''weight'', ''worker_affinity'', ''enabled'', ''last_ping'']
          (\<lambda>t. True)) s"
| "getTopologyStatusInternal env sql s =
     (case refreshStatuses env s of
        (Some err, s1) \<Rightarrow> (Inl err, s1)
      | (None, s1) \<Rightarrow>
          (case query env sql s1 of
             (Inl err, s2) \<Rightarrow> (Inl err, s2)
           | (Inr data, s2) \<Rightarrow>
               (Inr (map (\<lambda>rec.
                       \<lparr>ts_uuid = t_uuid rec, ts_status = t_status rec, ts_worker = t_worker rec,
                        ts_weight = t_weight rec, ts_enabled = (t_enabled rec \<noteq> 0),
                        ts_error = t_error rec, ts_last_ping = t_last_ping rec,
                        ts_worker_affinity =
                          filter (\<lambda>x. length x > 0)
                            (split_comma (case t_worker_affinity rec of None \<Rightarrow> '''' | Some a \<Rightarrow> a))\<rparr>)
                     data), s2)))"
  by pat_completeness auto

text \<open>
  The clock stands still within a call, so the nested refresh finds the deadline already
  advanced: a call that is throttled makes no further call, and a call that is not makes
  only throttled ones.
\<close>

termination
  apply (relation "measure (\<lambda>x. case x of
            Inl (Inl (env, s)) \<Rightarrow> 4 * (if now env < next_refresh s then 0 else 1)
          | Inl (Inr (env, s)) \<Rightarrow> 4 * (if now env < next_refresh s then 0 else 1) + 3
          | Inr (Inl (env, s)) \<Rightarrow> 4 * (if now env < next_refresh s then 0 else 1) + 2
          | Inr (Inr (env, sql, s)) \<Rightarrow> 4 * (if now env < next_refresh s then 0 else 1) + 1)")
  apply simp
  subgoal for env s s1
    by (auto dest!: disableDefunctWorkers_next_refresh)
  subgoal for env s x xa y
    using getWorkerStatusInternal_next_refresh[of env s x xa] by auto
  apply auto
  done

text \<open>The defining equations are recursive: they are unfolded by hand.\<close>

declare refreshStatuses.simps [simp del]
declare unassignWaitingTopologies.simps [simp del]
declare getTopologyStatus.simps [simp del]
declare getTopologyStatusInternal.simps [simp del]

subsection \<open>Status reads\<close>

definition getWorkerStatus :: "env \<Rightarrow> state \<Rightarrow> (error + WorkerStatus list) \<times> state" where
  "getWorkerStatus env s =
     (case refreshStatuses env s of
        (Some err, s1) \<Rightarrow> (Inl err, s1)
      | (None, s1) \<Rightarrow> getWorkerStatusInternal env s1)"

definition getTopologiesForWorker ::
    "env \<Rightarrow> string \<Rightarrow> state \<Rightarrow> (error + TopologyStatus list) \<times> state" where
  "getTopologiesForWorker env name s =
     getTopologyStatusInternal env
       (sql_select_topology
          [''uuid'', ''status'', ''worker'', ''weight'', ''worker_affinity'', ''enabled'', ''last_ping'']
          (\<lambda>t. t_worker t = Some name)) s"

record TopologyInfoResponse =
  ti_enabled :: int
  ti_status :: string
  ti_uuid :: string
  ti_error :: "string option"
  ti_weight :: int
  ti_worker_affinity :: "string option"
  ti_worker :: "string option"
  ti_last_ping :: int
  ti_last_ping_d :: int
  ti_config :: config

definition getTopologyInfo :: "env \<Rightarrow> string \<Rightarrow> state \<Rightarrow> (error + TopologyInfoResponse) \<times> state" where
  "getTopologyInfo env uuid s =
     (case query env
             (sql_select_topology
                [''uuid'', ''status'', ''worker'', ''weight'', ''enabled'', ''worker_affinity'',
                 ''error'', ''config'', ''last_ping'']
                (\<lambda>t. t_uuid t = uuid)) s of
        (Inl err, s1) \<Rightarrow> (Inl err, s1)
      | (Inr data, s1) \<Rightarrow>
          (case data of
             [] \<Rightarrow> (Inl (Error (''Requested topology not found: '' @ uuid)), s1)
           | hit # rest \<Rightarrow>
               (let config = t_config hit in
                (Inr \<lparr>ti_enabled = t_enabled hit, ti_status = t_status hit, ti_uuid = t_uuid hit,
                      ti_error = t_error hit, ti_weight = t_weight hit,
                      ti_worker_affinity = t_worker_affinity hit, ti_worker = t_worker hit,
                      ti_last_ping = getDate env (t_last_ping hit),
                      ti_last_ping_d = t_last_ping hit, ti_config = config\<rparr>, s1))))"

subsection \<open>Leadership\<close>

record lstatus_count =
  lc_lstatus :: string
  lc_cnt :: int

text \<open>
  Modelled from the spec: the routine \<^verbatim>\<open>qtopology_sp_worker_statuses\<close> is not in the
  source files; the specification names it the aggregate of worker lstatus counts. Its
  result set (\<^verbatim>\<open>data[0]\<close> in the code) has one row for each lstatus that occurs in
  the worker table, with the number of workers that have it.
\<close>

definition qtopology_sp_worker_statuses :: "db \<Rightarrow> lstatus_count list \<times> db" where
  "qtopology_sp_worker_statuses d =
     (map (\<lambda>l. \<lparr>lc_lstatus = l,
                 lc_cnt = int (length (filter (\<lambda>w. w_lstatus w = l) (qtopology_worker d)))\<rparr>)
          (remdups (map w_lstatus (qtopology_worker d))), d)"

record LeadershipResultStatus =
  leadership :: string

text \<open>\<^verbatim>\<open>hits.length > 0 && hits[0].cnt > 0\<close>.\<close>

definition first_counts :: "lstatus_count list \<Rightarrow> bool" where
  "first_counts hits = (case hits of [] \<Rightarrow> False | h # rest \<Rightarrow> lc_cnt h > 0)"

definition getLeadershipStatus :: "env \<Rightarrow> state \<Rightarrow> (error + LeadershipResultStatus) \<times> state" where
  "getLeadershipStatus env s =
     (case refreshStatuses env s of
        (Some err, s1) \<Rightarrow> (Inl err, s1)
      | (None, s1) \<Rightarrow>
          (case query env qtopology_sp_worker_statuses s1 of
             (Inl err, s2) \<Rightarrow> (Inl err, s2)
           | (Inr data, s2) \<Rightarrow>
               (if first_counts (filter (\<lambda>x. lc_lstatus x = WorkerLStatus_leader) data)
                then (Inr \<lparr>leadership = LeadershipStatus_ok\<rparr>, s2)
                else if first_counts (filter (\<lambda>x. lc_lstatus x = WorkerLStatus_candidate) data)
                then (Inr \<lparr>leadership = LeadershipStatus_pending\<rparr>, s2)
                else (Inr \<lparr>leadership = LeadershipStatus_vacant\<rparr>, s2))))"

subsection \<open>The mailbox\<close>

text \<open>
  Modelled from the spec: the routine \<^verbatim>\<open>qtopology_sp_messages_for_worker\<close> is not in
  the source files. It returns (as \<^verbatim>\<open>data[0]\<close>) the queued messages of the worker
  that have not expired, in creation order.
\<close>

definition qtopology_sp_messages_for_worker :: "int \<Rightarrow> string \<Rightarrow> db \<Rightarrow> message_row list \<times> db" where
  "qtopology_sp_messages_for_worker ts name d =
     (sort_key m_created
        (filter (\<lambda>m. m_worker m = name \<and> ts \<le> m_valid_until m) (qtopology_message d)), d)"

text \<open>
  Modelled from the spec: \<^verbatim>\<open>createDelete\<close> of the absent \<^verbatim>\<open>query_helper\<close> on the message
  table, with the filter on the id.
\<close>

definition sql_delete_message :: "nat \<Rightarrow> db \<Rightarrow> unit \<times> db" where
  "sql_delete_message item d =
     ((), d\<lparr>qtopology_message := filter (\<lambda>m. m_id m \<noteq> item) (qtopology_message d)\<rparr>)"

text \<open>
  Modelled from the spec: \<^verbatim>\<open>createInsert\<close> of the absent \<^verbatim>\<open>query_helper\<close> on the message
  table; the id is the next value of the counter of the table.
\<close>

definition sql_insert_message :: "string \<Rightarrow> string \<Rightarrow> string \<Rightarrow> int \<Rightarrow> int \<Rightarrow> db \<Rightarrow> unit \<times> db" where
  "sql_insert_message worker cmd content created valid_until d =
     ((), d\<lparr>qtopology_message := qtopology_message d @
                [\<lparr>m_id = message_auto_increment d, m_worker = worker, m_cmd = cmd,
                  m_content = content, m_created = created, m_valid_until = valid_until\<rparr>],
              message_auto_increment := Suc (message_auto_increment d)\<rparr>)"

record StorageResultMessage =
  srm_cmd :: string
  srm_content :: string
  srm_created :: int

text \<open>
  The final callback of \<^verbatim>\<open>getMessages\<close> is \<^verbatim>\<open>callback(err, res)\<close>: it gets the error
  of the deletes (if any) and the list, both. The content is an opaque payload
  (\<^verbatim>\<open>JSON.parse\<close> of what \<^verbatim>\<open>JSON.stringify\<close> wrote).
\<close>

definition getMessages ::
    "env \<Rightarrow> string \<Rightarrow> state \<Rightarrow> (error option \<times> StorageResultMessage list option) \<times> state" where
  "getMessages env name s =
     (case query env (qtopology_sp_messages_for_worker (now env) name) s of
        (Inl err, s1) \<Rightarrow> ((Some err, None), s1)
      | (Inr data, s1) \<Rightarrow>
          (let res = map (\<lambda>rec. \<lparr>srm_cmd = m_cmd rec, srm_content = m_content rec,
                                 srm_created = m_created rec\<rparr>) data;
               ids_to_delete = map m_id data in
           case each ids_to_delete (\<lambda>item s. simple (query env (sql_delete_message item) s)) s1 of
             (err, s2) \<Rightarrow> ((err, Some res), s2)))"

definition sendMessageToWorker ::
    "env \<Rightarrow> string \<Rightarrow> string \<Rightarrow> string \<Rightarrow> int \<Rightarrow> state \<Rightarrow> error option \<times> state" where
  "sendMessageToWorker env worker cmd content valid_msec s =
     simple (query env (sql_insert_message worker cmd content (now env) (now env + valid_msec)) s)"

subsection \<open>Topology lifecycle\<close>

text \<open>
  A method either calls its callback or throws before it gets there. Only
  \<^verbatim>\<open>registerTopology\<close> reads a property of a value that can be undefined outside the
  \<^verbatim>\<open>try\<close> block of \<^verbatim>\<open>query\<close>.
\<close>

datatype 'a outcome = Throws error | Calls 'a

text \<open>
  Modelled from the spec: the routine \<^verbatim>\<open>qtopology_sp_register_topology\<close> is not in the
  source files. It creates the topology with the supplied configuration, weight and
  affinity, unassigned and with no worker; for a uuid that is registered already it
  replaces these three fields.
\<close>

definition qtopology_sp_register_topology ::
    "int \<Rightarrow> string \<Rightarrow> config \<Rightarrow> int \<Rightarrow> string \<Rightarrow> db \<Rightarrow> unit \<times> db" where
  "qtopology_sp_register_topology ts uuid config weight affinity d =
     (if uuid \<in> set (map t_uuid (qtopology_topology d))
      then ((), sql_update_topology
                  (\<lambda>t. t\<lparr>t_config := config, t_weight := weight, t_worker_affinity := Some affinity\<rparr>)
                  uuid d)
      else ((), d\<lparr>qtopology_topology := qtopology_topology d @
                    [\<lparr>t_uuid = uuid, t_config = config, t_status = TopologyStatus_unassigned,
                      t_worker = None, t_weight = weight, t_worker_affinity = Some affinity,
                      t_error = None, t_last_ping = ts, t_enabled = 0\<rparr>]\<rparr>))"

text \<open>
  \<^verbatim>\<open>config.general.worker_affinity\<close> is read before \<^verbatim>\<open>this.query\<close> is called. An
  array is truthy, the empty one too; \<^verbatim>\<open>weight || 1\<close> is 1 for a missing weight and
  for 0.
\<close>

definition registerTopology ::
    "env \<Rightarrow> string \<Rightarrow> config \<Rightarrow> state \<Rightarrow> error option outcome \<times> state" where
  "registerTopology env uuid config s =
     (case c_general config of
        None \<Rightarrow> (Throws (TypeError ''Cannot read property worker_affinity of undefined''), s)
      | Some general \<Rightarrow>
          (let affinity = (case g_worker_affinity general of
                             Some a \<Rightarrow> join_comma a
                           | None \<Rightarrow> '''');
               weight = (case g_weight general of
                           Some w \<Rightarrow> if w = 0 then 1 else w
                         | None \<Rightarrow> 1) in
           case simple (query env
                          (qtopology_sp_register_topology (now env) uuid config weight affinity) s) of
             (err, s1) \<Rightarrow> (Calls err, s1)))"

definition assignTopology :: "env \<Rightarrow> string \<Rightarrow> string \<Rightarrow> state \<Rightarrow> error option \<times> state" where
  "assignTopology env uuid name s =
     simple (query env
       (\<lambda>d. ((), qtopology_sp_add_topology_history (now env) uuid
                  (sql_update_topology
                     (\<lambda>t. t\<lparr>t_worker := Some name, t_last_ping := now env,
                            t_status := TopologyStatus_waiting\<rparr>) uuid d))) s)"

definition disableTopology :: "env \<Rightarrow> string \<Rightarrow> state \<Rightarrow> error option \<times> state" where
  "disableTopology env uuid s =
     simple (query env
       (\<lambda>d. ((), qtopology_sp_add_topology_history (now env) uuid
                  (sql_update_topology (\<lambda>t. t\<lparr>t_enabled := 0\<rparr>) uuid d))) s)"

definition enableTopology :: "env \<Rightarrow> string \<Rightarrow> state \<Rightarrow> error option \<times> state" where
  "enableTopology env uuid s =
     simple (query env
       (\<lambda>d. ((), qtopology_sp_add_topology_history (now env) uuid
                  (sql_update_topology (\<lambda>t. t\<lparr>t_enabled := 1\<rparr>) uuid d))) s)"

text \<open>
  Modelled from the spec: \<^verbatim>\<open>createDelete\<close> of the absent \<^verbatim>\<open>query_helper\<close> on the
  topology table, with the filter on the uuid.
\<close>

definition sql_delete_topology :: "string \<Rightarrow> db \<Rightarrow> unit \<times> db" where
  "sql_delete_topology uuid d =
     ((), d\<lparr>qtopology_topology := filter (\<lambda>t. t_uuid t \<noteq> uuid) (qtopology_topology d)\<rparr>)"

definition deleteTopology :: "env \<Rightarrow> string \<Rightarrow> state \<Rightarrow> error option \<times> state" where
  "deleteTopology env uuid s = simple (query env (sql_delete_topology uuid) s)"

text \<open>
  \<^verbatim>\<open>!data.worker\<close> holds of a null worker and of the empty string; the message content
  is the JSON text of \<^verbatim>\<open>{ uuid: uuid }\<close>.
\<close>

definition stopTopology :: "env \<Rightarrow> string \<Rightarrow> state \<Rightarrow> error option \<times> state" where
  "stopTopology env uuid s =
     (case getTopologyInfo env uuid s of
        (Inl err, s1) \<Rightarrow> (Some err, s1)
      | (Inr data, s1) \<Rightarrow>
          (case ti_worker data of
             None \<Rightarrow> (None, s1)
           | Some worker \<Rightarrow>
               if worker = '''' then (None, s1)
               else (case disableTopology env uuid s1 of
                       (Some err, s2) \<Rightarrow> (Some err, s2)
                     | (None, s2) \<Rightarrow>
                         sendMessageToWorker env worker LeaderMessages_stop_topology
                           (''{\"uuid\":\"'' @ uuid @ ''\"}'') (30 * 1000) s2)))"

definition clearTopologyError :: "env \<Rightarrow> string \<Rightarrow> state \<Rightarrow> error option \<times> state" where
  "clearTopologyError env uuid s =
     (case getTopologyInfo env uuid s of
        (Inl err, s1) \<Rightarrow> (Some err, s1)
      | (Inr data, s1) \<Rightarrow>
          (let hit = data in
           if ti_status hit \<noteq> TopologyStatus_error
           then (Some (Error (''Specified topology is not marked as error: '' @ uuid)), s1)
           else setTopologyStatus env uuid TopologyStatus_unassigned None s1))"

text \<open>
  Modelled from the spec: \<^verbatim>\<open>createDelete\<close> of the absent \<^verbatim>\<open>query_helper\<close> on the
  worker table, with the filter on the name and the status.
\<close>

definition sql_delete_worker :: "string \<Rightarrow> string \<Rightarrow> db \<Rightarrow> unit \<times> db" where
  "sql_delete_worker name status d =
     ((), d\<lparr>qtopology_worker :=
             filter (\<lambda>w. \<not> (w_name w = name \<and> w_status w = status)) (qtopology_worker d)\<rparr>)"

definition deleteWorker :: "env \<Rightarrow> string \<Rightarrow> state \<Rightarrow> error option \<times> state" where
  "deleteWorker env name s =
     (case getWorkerStatus env s of
        (Inl err, s1) \<Rightarrow> (Some err, s1)
      | (Inr data, s1) \<Rightarrow>
          (case filter (\<lambda>x. ws_name x = name) data of
             hit # rest \<Rightarrow>
               if ws_status hit = WorkerStatus_unloaded
               then simple (query env (sql_delete_worker name WorkerStatus_unloaded) s1)
               else (Some (Error ''Specified worker is not unloaded and cannot be deleted.''), s1)
           | [] \<Rightarrow> (Some (Error ''Specified worker doesn't exist and thus cannot be deleted.''), s1)))"

definition shutDownWorker :: "env \<Rightarrow> string \<Rightarrow> state \<Rightarrow> error option \<times> state" where
  "shutDownWorker env name s =
     sendMessageToWorker env name LeaderMessages_shutdown ''{}'' (60 * 1000) s"

subsection \<open>History\<close>

text \<open>
  Modelled from the spec: \<^verbatim>\<open>createSelect\<close> of the absent \<^verbatim>\<open>query_helper\<close> on the
  topology history table. \<^verbatim>\<open>select(table, columns, filter, orderBy, limit)\<close> with
  \<^verbatim>\<open>["*"]\<close>, the order \<^verbatim>\<open>ts desc\<close> and the limit 100 returns the matching rows,
  latest first, cut after 100.
\<close>

definition sql_select_topology_history :: "string \<Rightarrow> db \<Rightarrow> topology_history_row list \<times> db" where
  "sql_select_topology_history uuid d =
     (take 100 (sort_key (\<lambda>x. - th_ts x)
                  (filter (\<lambda>x. th_uuid x = uuid) (qtopology_topology_history d))), d)"

text \<open>
  Modelled from the spec: the same \<^verbatim>\<open>createSelect\<close> of the absent \<^verbatim>\<open>query_helper\<close> on the
  worker history table, with the filter on the name.
\<close>

definition sql_select_worker_history :: "string \<Rightarrow> db \<Rightarrow> worker_history_row list \<times> db" where
  "sql_select_worker_history name d =
     (take 100 (sort_key (\<lambda>x. - wh_ts x)
                  (filter (\<lambda>x. wh_name x = name) (qtopology_worker_history d))), d)"

record TopologyStatusHistory =
  tsh_enabled :: int
  tsh_error :: "string option"
  tsh_status :: string
  tsh_ts :: int
  tsh_uuid :: string
  tsh_weight :: int
  tsh_worker :: "string option"
  tsh_last_ping :: int
  tsh_last_ping_d :: int
  tsh_worker_affinity :: "string option"

record WorkerStatusHistory =
  wsh_lstatus :: string
  wsh_name :: string
  wsh_status :: string
  wsh_ts :: int

text \<open>Both methods build \<^verbatim>\<open>res\<close> and then call \<^verbatim>\<open>callback(null, data)\<close>.\<close>

definition getTopologyHistory ::
    "env \<Rightarrow> string \<Rightarrow> state \<Rightarrow> (error + topology_history_row list) \<times> state" where
  "getTopologyHistory env uuid s =
     (case query env (sql_select_topology_history uuid) s of
        (Inl err, s1) \<Rightarrow> (Inl err, s1)
      | (Inr data, s1) \<Rightarrow>
          (let res = map (\<lambda>x. \<lparr>tsh_enabled = th_enabled x, tsh_error = th_error x,
                               tsh_status = th_status x, tsh_ts = th_ts x, tsh_uuid = th_uuid x,
                               tsh_weight = th_weight x, tsh_worker = th_worker x,
                               tsh_last_ping = getDate env (th_last_ping x),
                               tsh_last_ping_d = th_last_ping x,
                               tsh_worker_affinity = th_worker_affinity x\<rparr>) data in
           (Inr data, s1)))"

definition getWorkerHistory ::
    "env \<Rightarrow> string \<Rightarrow> state \<Rightarrow> (error + worker_history_row list) \<times> state" where
  "getWorkerHistory env name s =
     (case query env (sql_select_worker_history name) s of
        (Inl err, s1) \<Rightarrow> (Inl err, s1)
      | (Inr data, s1) \<Rightarrow>
          (let res = map (\<lambda>x. \<lparr>wsh_lstatus = wh_lstatus x, wsh_name = wh_name x,
                               wsh_status = wh_status x, wsh_ts = wh_ts x\<rparr>) data in
           (Inr data, s1)))"

subsection \<open>An example\<close>

text \<open>
  A database of two workers and two topologies, and an environment whose database never
  fails. Worker \<open>w1\<close> is a leader that pinged last at 0; topology \<open>T1\<close> has been waiting
  since 0, topology \<open>T2\<close> runs on \<open>w1\<close>.
\<close>

definition ex_env :: "int \<Rightarrow> env" where
  "ex_env t = \<lparr>now = t, db_fails = (\<lambda>n. False), getDate = (\<lambda>d. 1)\<rparr>"

definition ex_db :: db where
  "ex_db =
     \<lparr>qtopology_worker =
        [\<lparr>w_name = ''w1'', w_status = ''alive'', w_lstatus = ''leader'', w_last_ping = Some 0\<rparr>,
         \<lparr>w_name = ''w2'', w_status = ''alive'', w_lstatus = ''normal'', w_last_ping = Some 95000\<rparr>],
      qtopology_worker_history = [],
      qtopology_topology =
        [\<lparr>t_uuid = ''T1'', t_config = \<lparr>c_general = Some \<lparr>g_worker_affinity = None, g_weight = None\<rparr>, c_payload = ''''\<rparr>,
          t_status = ''waiting'', t_worker = Some ''w2'', t_weight = 1, t_worker_affinity = None,
          t_error = None, t_last_ping = 0, t_enabled = 1\<rparr>,
         \<lparr>t_uuid = ''T2'', t_config = \<lparr>c_general = Some \<lparr>g_worker_affinity = None, g_weight = None\<rparr>, c_payload = ''''\<rparr>,
          t_status = ''running'', t_worker = Some ''w1'', t_weight = 1, t_worker_affinity = None,
          t_error = None, t_last_ping = 99000, t_enabled = 1\<rparr>],
      qtopology_topology_history = [],
      qtopology_message = [],
      message_auto_increment = 0\<rparr>"

text \<open>The definitions that evaluate the worker sweep on a concrete state.\<close>

lemmas ex_defs = ex_env_def ex_db_def constructor_def

lemmas worker_sweep_defs =
  disableDefunctWorkers_def disableDefunctWorkerSingle_def getWorkerStatusInternal_def
  setWorkerStatus_def setWorkerLStatus_def query_def simple_def sql_select_worker_def
  sql_update_worker_def qtopology_sp_add_worker_history_def Let_def

section \<open>Notions used in the properties\<close>

text \<open>
  The object \<^verbatim>\<open>getWorkerStatusInternal\<close> makes of a row, the two conditions of
  \<^verbatim>\<open>disableDefunctWorkerSingle\<close>, and the row they leave.
\<close>

definition snapshot :: "env \<Rightarrow> worker_row \<Rightarrow> WorkerStatus" where
  "snapshot env w =
     (let last_ping = (case w_last_ping w of None \<Rightarrow> now env | Some d \<Rightarrow> d) in
      \<lparr>ws_name = w_name w, ws_status = w_status w, ws_lstatus = w_lstatus w,
       ws_last_ping = last_ping, ws_last_ping_d = last_ping\<rparr>)"

definition marks_dead :: "env \<Rightarrow> WorkerStatus \<Rightarrow> bool" where
  "marks_dead env ws \<longleftrightarrow> ws_status ws = WorkerStatus_alive \<and> ws_last_ping ws < now env - 30000"

definition resets_lstatus :: "env \<Rightarrow> WorkerStatus \<Rightarrow> bool" where
  "resets_lstatus env ws \<longleftrightarrow>
     ws_lstatus ws \<noteq> WorkerLStatus_normal \<and>
     (ws_status ws \<noteq> WorkerStatus_alive \<or> ws_last_ping ws < now env - 10000)"

definition sweep_row :: "env \<Rightarrow> WorkerStatus \<Rightarrow> worker_row \<Rightarrow> worker_row" where
  "sweep_row env ws w =
     (if w_name w = ws_name ws then
        (let w1 = (if marks_dead env ws
                   then w\<lparr>w_status := WorkerStatus_dead, w_last_ping := Some (now env)\<rparr> else w) in
         if resets_lstatus env ws
         then w1\<lparr>w_lstatus := WorkerLStatus_normal, w_last_ping := Some (now env)\<rparr> else w1)
      else w)"

text \<open>
  The object \<^verbatim>\<open>getTopologyStatusInternal\<close> makes of a row, the condition under which
  \<^verbatim>\<open>unassignWaitingTopologies\<close> unassigns, and the row it leaves.
\<close>

definition topology_status :: "topology_row \<Rightarrow> TopologyStatus" where
  "topology_status rec =
     \<lparr>ts_uuid = t_uuid rec, ts_status = t_status rec, ts_worker = t_worker rec,
      ts_weight = t_weight rec, ts_enabled = (t_enabled rec \<noteq> 0),
      ts_error = t_error rec, ts_last_ping = t_last_ping rec,
      ts_worker_affinity =
        filter (\<lambda>x. length x > 0)
          (split_comma (case t_worker_affinity rec of None \<Rightarrow> '''' | Some a \<Rightarrow> a))\<rparr>"

definition dead_names :: "worker_row list \<Rightarrow> string list" where
  "dead_names rows =
     map w_name (filter (\<lambda>w. w_status w = WorkerStatus_dead \<or> w_status w = WorkerStatus_unloaded) rows)"

definition reassigns :: "env \<Rightarrow> string list \<Rightarrow> TopologyStatus \<Rightarrow> bool" where
  "reassigns env dead_workers ts \<longleftrightarrow>
     ts_status ts = TopologyStatus_waiting \<and> ts_last_ping ts < now env - 30000 \<or>
     ts_status ts = TopologyStatus_running \<and> ts_worker ts \<in> set (map Some dead_workers)"

definition reassign_row :: "env \<Rightarrow> string list \<Rightarrow> TopologyStatus \<Rightarrow> topology_row \<Rightarrow> topology_row" where
  "reassign_row env dead_workers ts t =
     (if t_uuid t = ts_uuid ts \<and> reassigns env dead_workers ts
      then t\<lparr>t_status := TopologyStatus_unassigned, t_last_ping := now env, t_error := None\<rparr>
      else t)"



text \<open>The classification of the worker set in the words of the specification.\<close>

definition leadership_of :: "worker_row list \<Rightarrow> string" where
  "leadership_of rows =
     (if \<exists>w \<in> set rows. w_lstatus w = WorkerLStatus_leader then LeadershipStatus_ok
      else if \<exists>w \<in> set rows. w_lstatus w = WorkerLStatus_candidate then LeadershipStatus_pending
      else LeadershipStatus_vacant)"

text \<open>The message \<^verbatim>\<open>getMessages\<close> makes of a row, and the rows its fetch returns.\<close>

definition message_of :: "message_row \<Rightarrow> StorageResultMessage" where
  "message_of rec = \<lparr>srm_cmd = m_cmd rec, srm_content = m_content rec, srm_created = m_created rec\<rparr>"

definition fetched :: "env \<Rightarrow> string \<Rightarrow> state \<Rightarrow> message_row list" where
  "fetched env name s = fst (qtopology_sp_messages_for_worker (now env) name (db s))"

text \<open>
  The mailbox is written by \<^verbatim>\<open>sendMessageToWorker\<close> and \<^verbatim>\<open>getMessages\<close> only. A state
  is later than another when it is reached by calls of these two and by steps that
  leave the message table and its id counter as they are. Every other method modelled
  here makes only steps of that kind (\<open>methods_keep_mailbox\<close>,
  \<open>topology_writes_keep_mailbox\<close>, \<open>deleteWorker_keeps_mailbox\<close>), and the two that
  stop work send a message (\<open>stopping_is_later\<close>).
\<close>

definition keeps_mailbox :: "state \<Rightarrow> state \<Rightarrow> bool" where
  "keeps_mailbox s s' \<longleftrightarrow>
     qtopology_message (db s') = qtopology_message (db s) \<and>
     message_auto_increment (db s') = message_auto_increment (db s)"

inductive later :: "state \<Rightarrow> state \<Rightarrow> bool" where
  same: "later s s"
| send: "later s s1 \<Longrightarrow> later s (snd (sendMessageToWorker env worker cmd content valid_msec s1))"
| get: "later s s1 \<Longrightarrow> later s (snd (getMessages env name s1))"
| other: "later s s1 \<Longrightarrow> keeps_mailbox s1 s2 \<Longrightarrow> later s s2"

text \<open>
  Ids come from the counter of the table: every stored id is below it. The ids in \<open>D\<close>
  have been given out and are no longer stored.
\<close>

definition gone :: "nat set \<Rightarrow> state \<Rightarrow> bool" where
  "gone D s \<longleftrightarrow>
     (\<forall>m \<in> set (qtopology_message (db s)). m_id m < message_auto_increment (db s) \<and> m_id m \<notin> D) \<and>
     (\<forall>i \<in> D. i < message_auto_increment (db s))"

section \<open>Properties\<close>

subsection \<open>Fan-out over a table\<close>

lemma series_two_None:
  "series [t1, t2] s = (None, s') \<Longrightarrow> \<exists>s1. t1 s = (None, s1) \<and> t2 s1 = (None, s')"
  by (auto split: prod.splits option.splits)

lemma each_None_Cons:
  "each (x # xs) f s = (None, s') \<Longrightarrow> \<exists>s1. f x s = (None, s1) \<and> each xs f s1 = (None, s')"
  by (auto split: prod.splits option.splits)

text \<open>
  When every item rewrites the rows of a table by a map, the fan-out rewrites each row
  by the steps of all items, in turn.
\<close>

lemma each_table:
  assumes "\<And>x s s1. f x s = (None, s1) \<Longrightarrow> g s1 = map (step x) (g s)"
    and "each xs f s = (None, s')"
  shows "g s' = map (\<lambda>r. foldl (\<lambda>r i. step i r) r xs) (g s)"
  using assms(2)
proof (induction xs arbitrary: s)
  case Nil
  then show ?case by simp
next
  case (Cons x xs)
  from each_None_Cons[OF Cons.prems] obtain s1 where
    h: "f x s = (None, s1)" and r: "each xs f s1 = (None, s')" by blast
  show ?case
    using Cons.IH[OF r] assms(1)[OF h] by (simp add: comp_def)
qed

text \<open>
  A step changes only the row that has the key of its item. With distinct keys, a row
  is rewritten by its own item alone.
\<close>

lemma foldl_other_keys:
  assumes "\<And>i r. key_i i \<noteq> key_r r \<Longrightarrow> step i r = r"
    and "\<forall>i \<in> set items. key_i i \<noteq> key_r r"
  shows "foldl (\<lambda>r i. step i r) r items = r"
  using assms(2) by (induction items) (auto simp: assms(1))

lemma foldl_own_key:
  assumes keep: "\<And>i r. key_r (step i r) = key_r r"
    and other: "\<And>i r. key_i i \<noteq> key_r r \<Longrightarrow> step i r = r"
    and "distinct (map key_i items)" and "i \<in> set items" and "key_i i = key_r r"
  shows "foldl (\<lambda>r i. step i r) r items = step i r"
  using assms(3-5)
proof (induction items arbitrary: r)
  case Nil
  then show ?case by simp
next
  case (Cons a items)
  show ?case
  proof (cases "a = i")
    case True
    have "\<forall>x \<in> set items. key_i x \<noteq> key_r (step i r)"
      using Cons.prems True by (auto simp: image_iff keep)
    then have "foldl (\<lambda>r i. step i r) (step i r) items = step i r"
      using foldl_other_keys[of key_i key_r step items "step i r"] other by blast
    then show ?thesis using True by simp
  next
    case False
    then have in_rest: "i \<in> set items" using Cons.prems by simp
    have "key_i a \<noteq> key_r r" using Cons.prems in_rest by (auto simp: image_iff)
    then have "step a r = r" by (rule other)
    then show ?thesis using Cons.IH[of r] Cons.prems in_rest by simp
  qed
qed

subsection \<open>A database that does not fail\<close>

text \<open>The sweeps report no error when no statement fails.\<close>

lemma each_fst_None:
  "(\<And>x s. fst (f x s) = None) \<Longrightarrow> fst (each xs f s) = None"
proof (induction xs arbitrary: s)
  case Nil
  then show ?case by simp
next
  case (Cons x xs)
  have "fst (f x s) = None" by (rule Cons.prems)
  moreover have "fst (each xs f (snd (f x s))) = None" using Cons.IH Cons.prems by blast
  ultimately show ?case by (auto split: prod.splits option.splits)
qed

lemma series_fst_None:
  "(\<And>t s. t \<in> set tasks \<Longrightarrow> fst (t s) = None) \<Longrightarrow> fst (series tasks s) = None"
proof (induction tasks arbitrary: s)
  case Nil
  then show ?case by simp
next
  case (Cons t tasks)
  have "fst (t s) = None" using Cons.prems by simp
  moreover have "fst (series tasks (snd (t s))) = None" using Cons.IH Cons.prems by simp
  ultimately show ?case by (auto split: prod.splits option.splits)
qed

lemma query_eq:
  "query env sql s =
     (if db_fails env (queries s)
      then (Inl (PersistenceFailure (queries s)), s\<lparr>queries := Suc (queries s)\<rparr>)
      else (Inr (fst (sql (db s))), s\<lparr>queries := Suc (queries s), db := snd (sql (db s))\<rparr>))"
  by (simp add: query_def Let_def split: prod.splits)

lemma simple_query_succeeds:
  "\<forall>n. \<not> db_fails env n \<Longrightarrow> fst (simple (query env sql s)) = None"
  by (simp add: query_eq simple_def)

lemma disableDefunctWorkers_succeeds:
  assumes "\<forall>n. \<not> db_fails env n"
  shows "fst (disableDefunctWorkers env s) = None"
proof -
  have single: "fst (disableDefunctWorkerSingle env worker s) = None" for worker s
    unfolding disableDefunctWorkerSingle_def Let_def
    by (rule series_fst_None)
       (auto simp: setWorkerStatus_def setWorkerLStatus_def simple_query_succeeds[OF assms])
  show ?thesis
    using assms
    by (simp add: disableDefunctWorkers_def getWorkerStatusInternal_def query_eq
          each_fst_None[of "disableDefunctWorkerSingle env", OF single])
qed

lemma unassignWaitingTopologies_succeeds:
  assumes "\<forall>n. \<not> db_fails env n" and "now env < next_refresh s"
  shows "fst (unassignWaitingTopologies env s) = None"
proof -
  have thr: "now env < next_refresh (s\<lparr>queries := Suc (queries s)\<rparr>)" using assms(2) by simp
  have item: "fst (setTopologyStatus env uuid status error s) = None" for uuid status error s
    by (simp add: setTopologyStatus_def simple_query_succeeds[OF assms(1)])
  show ?thesis
    using assms(1) thr
    by (simp add: unassignWaitingTopologies.simps getTopologyStatus.simps
          getTopologyStatusInternal.simps refreshStatuses.simps
          getWorkerStatusInternal_def query_eq Let_def each_fst_None item)
qed

subsection \<open>Keys\<close>

lemma distinct_key_eq:
  "distinct (map key xs) \<Longrightarrow> x \<in> set xs \<Longrightarrow> y \<in> set xs \<Longrightarrow> key x = key y \<Longrightarrow> x = y"
  by (auto simp: distinct_map dest: inj_onD)

subsection \<open>What the worker liveness sweep does to the worker table\<close>

lemma sweep_row_name: "w_name (sweep_row env ws w) = w_name w"
  by (simp add: sweep_row_def Let_def)

lemma getWorkerStatusInternal_Inr:
  "getWorkerStatusInternal env s = (Inr data, s') \<Longrightarrow>
     data = map (snapshot env) (qtopology_worker (db s)) \<and> s' = s\<lparr>queries := Suc (queries s)\<rparr>"
  by (auto simp: getWorkerStatusInternal_def query_def sql_select_worker_def snapshot_def Let_def
           split: if_splits prod.splits sum.splits)

lemma setWorkerStatus_None:
  "setWorkerStatus env name status s = (None, s') \<Longrightarrow>
     qtopology_worker (db s') =
       map (\<lambda>w. if w_name w = name then w\<lparr>w_status := status, w_last_ping := Some (now env)\<rparr> else w)
         (qtopology_worker (db s))"
  by (auto simp: setWorkerStatus_def simple_def query_def Let_def sql_update_worker_def
                 qtopology_sp_add_worker_history_def
           split: if_splits prod.splits sum.splits)

lemma setWorkerLStatus_None:
  "setWorkerLStatus env name lstatus s = (None, s') \<Longrightarrow>
     qtopology_worker (db s') =
       map (\<lambda>w. if w_name w = name then w\<lparr>w_lstatus := lstatus, w_last_ping := Some (now env)\<rparr> else w)
         (qtopology_worker (db s))"
  by (auto simp: setWorkerLStatus_def simple_def query_def Let_def sql_update_worker_def
                 qtopology_sp_add_worker_history_def
           split: if_splits prod.splits sum.splits)

lemma disableDefunctWorkerSingle_None:
  assumes "disableDefunctWorkerSingle env ws s = (None, s')"
  shows "qtopology_worker (db s') = map (sweep_row env ws) (qtopology_worker (db s))"
proof -
  from assms obtain s1 where
    t1: "(if ws_status ws \<noteq> WorkerStatus_alive then (None, s)
          else if ws_last_ping ws \<ge> now env - 30 * 1000 then (None, s)
          else setWorkerStatus env (ws_name ws) WorkerStatus_dead s) = (None, s1)" and
    t2: "(if ws_lstatus ws \<noteq> WorkerLStatus_normal \<and> ws_status ws \<noteq> WorkerStatus_alive
          then setWorkerLStatus env (ws_name ws) WorkerLStatus_normal s1
          else if ws_lstatus ws \<noteq> WorkerLStatus_normal \<and> ws_last_ping ws < now env - 10 * 1000
          then setWorkerLStatus env (ws_name ws) WorkerLStatus_normal s1
          else (None, s1)) = (None, s')"
    unfolding disableDefunctWorkerSingle_def Let_def by (blast dest: series_two_None)
  have r1: "qtopology_worker (db s1) =
              map (\<lambda>w. if w_name w = ws_name ws \<and> marks_dead env ws
                        then w\<lparr>w_status := WorkerStatus_dead, w_last_ping := Some (now env)\<rparr> else w)
                  (qtopology_worker (db s))"
    using t1 by (auto simp: marks_dead_def split: if_splits dest!: setWorkerStatus_None)
  have r2: "qtopology_worker (db s') =
              map (\<lambda>w. if w_name w = ws_name ws \<and> resets_lstatus env ws
                        then w\<lparr>w_lstatus := WorkerLStatus_normal, w_last_ping := Some (now env)\<rparr> else w)
                  (qtopology_worker (db s1))"
    using t2 by (auto simp: resets_lstatus_def split: if_splits dest!: setWorkerLStatus_None)
  show ?thesis
    unfolding r2 r1 by (auto simp: sweep_row_def Let_def)
qed

lemma disableDefunctWorkers_None:
  assumes "disableDefunctWorkers env s = (None, s')"
    and "distinct (map w_name (qtopology_worker (db s)))"
  shows "qtopology_worker (db s') =
           map (\<lambda>w. sweep_row env (snapshot env w) w) (qtopology_worker (db s))"
proof -
  let ?rows = "qtopology_worker (db s)"
  obtain x s1 where g: "getWorkerStatusInternal env s = (x, s1)"
    by (cases "getWorkerStatusInternal env s")
  then obtain data where x: "x = Inr data"
    using assms(1) by (cases x) (auto simp: disableDefunctWorkers_def)
  have data: "data = map (snapshot env) ?rows" and s1: "db s1 = db s"
    using getWorkerStatusInternal_Inr[of env s data s1] g x by simp_all
  have "each data (disableDefunctWorkerSingle env) s1 = (None, s')"
    using assms(1) g x by (simp add: disableDefunctWorkers_def)
  then have tab: "qtopology_worker (db s') =
      map (\<lambda>w. foldl (\<lambda>w ws. sweep_row env ws w) w data) ?rows"
    using each_table[of "disableDefunctWorkerSingle env" "\<lambda>s. qtopology_worker (db s)"
                        "sweep_row env" data s1 s']
      disableDefunctWorkerSingle_None s1 by simp
  have d: "distinct (map ws_name data)"
    using assms(2) data by (simp add: comp_def snapshot_def Let_def)
  have "foldl (\<lambda>w ws. sweep_row env ws w) w data = sweep_row env (snapshot env w) w"
    if "w \<in> set ?rows" for w
    using foldl_own_key[of w_name "sweep_row env" ws_name data "snapshot env w" w] d that data
    by (simp add: sweep_row_def snapshot_def Let_def)
  then show ?thesis using tab by simp
qed

text \<open>
  C1. Worker liveness sweep: the sweep completes without an error when no statement
  fails; when it has completed without an error, every worker of the table it read is
  still in the table, under its name; a worker that was alive with
  a last ping older than 30 seconds is dead; a worker whose lstatus was not normal and
  that was not alive, or whose last ping was older than 10 seconds, has the lstatus
  normal; a worker in neither case has its row as it was. A null last ping is read as
  the present instant. Worker names are the key of the table.
\<close>

theorem worker_liveness_sweep:
  assumes "distinct (map w_name (qtopology_worker (db s)))"
    and "w \<in> set (qtopology_worker (db s))"
    and "last_ping = (case w_last_ping w of None \<Rightarrow> now env | Some d \<Rightarrow> d)"
  shows "((\<forall>n. \<not> db_fails env n) \<longrightarrow> fst (disableDefunctWorkers env s) = None) \<and>
         (fst (disableDefunctWorkers env s) = None \<longrightarrow>
            map w_name (qtopology_worker (db (snd (disableDefunctWorkers env s)))) =
              map w_name (qtopology_worker (db s)) \<and>
            (\<forall>w' \<in> set (qtopology_worker (db (snd (disableDefunctWorkers env s)))).
               w_name w' = w_name w \<longrightarrow>
                 (w_status w = WorkerStatus_alive \<and> last_ping < now env - 30000
                    \<longrightarrow> w_status w' = WorkerStatus_dead) \<and>
                 (w_lstatus w \<noteq> WorkerLStatus_normal \<and>
                  (w_status w \<noteq> WorkerStatus_alive \<or> last_ping < now env - 10000)
                    \<longrightarrow> w_lstatus w' = WorkerLStatus_normal) \<and>
                 (\<not> (w_status w = WorkerStatus_alive \<and> last_ping < now env - 30000) \<and>
                  \<not> (w_lstatus w \<noteq> WorkerLStatus_normal \<and>
                      (w_status w \<noteq> WorkerStatus_alive \<or> last_ping < now env - 10000))
                    \<longrightarrow> w' = w)))"
proof (rule conjI)
  show "(\<forall>n. \<not> db_fails env n) \<longrightarrow> fst (disableDefunctWorkers env s) = None"
    using disableDefunctWorkers_succeeds by blast
next
  show "fst (disableDefunctWorkers env s) = None \<longrightarrow>
            map w_name (qtopology_worker (db (snd (disableDefunctWorkers env s)))) =
              map w_name (qtopology_worker (db s)) \<and>
            (\<forall>w' \<in> set (qtopology_worker (db (snd (disableDefunctWorkers env s)))).
               w_name w' = w_name w \<longrightarrow>
                 (w_status w = WorkerStatus_alive \<and> last_ping < now env - 30000
                    \<longrightarrow> w_status w' = WorkerStatus_dead) \<and>
                 (w_lstatus w \<noteq> WorkerLStatus_normal \<and>
                  (w_status w \<noteq> WorkerStatus_alive \<or> last_ping < now env - 10000)
                    \<longrightarrow> w_lstatus w' = WorkerLStatus_normal) \<and>
                 (\<not> (w_status w = WorkerStatus_alive \<and> last_ping < now env - 30000) \<and>
                  \<not> (w_lstatus w \<noteq> WorkerLStatus_normal \<and>
                      (w_status w \<noteq> WorkerStatus_alive \<or> last_ping < now env - 10000))
                    \<longrightarrow> w' = w))"
  proof (rule impI)
  assume ok: "fst (disableDefunctWorkers env s) = None"
  let ?rows = "qtopology_worker (db s)"
  obtain s' where r: "disableDefunctWorkers env s = (None, s')"
    using ok by (cases "disableDefunctWorkers env s") auto
  have tab: "qtopology_worker (db s') = map (\<lambda>w. sweep_row env (snapshot env w) w) ?rows"
    using disableDefunctWorkers_None[OF r assms(1)] .
  have names: "map w_name (qtopology_worker (db s')) = map w_name ?rows"
    unfolding tab by (simp add: comp_def sweep_row_name)
  have own: "w' = sweep_row env (snapshot env w) w"
    if "w' \<in> set (qtopology_worker (db s'))" and "w_name w' = w_name w" for w'
  proof -
    from that(1) obtain v where v: "v \<in> set ?rows" and w': "w' = sweep_row env (snapshot env v) v"
      unfolding tab by auto
    have "w_name v = w_name w" using that(2) w' by (simp add: sweep_row_name)
    then have "v = w" using distinct_key_eq[OF assms(1) v assms(2)] by simp
    then show ?thesis using w' by simp
  qed
  have ping: "ws_last_ping (snapshot env w) = last_ping"
    using assms(3) by (simp add: snapshot_def Let_def)
  have post: "snd (disableDefunctWorkers env s) = s'" using r by simp
  have "(w_status w = WorkerStatus_alive \<and> last_ping < now env - 30000
           \<longrightarrow> w_status w' = WorkerStatus_dead) \<and>
        (w_lstatus w \<noteq> WorkerLStatus_normal \<and>
         (w_status w \<noteq> WorkerStatus_alive \<or> last_ping < now env - 10000)
           \<longrightarrow> w_lstatus w' = WorkerLStatus_normal) \<and>
        (\<not> (w_status w = WorkerStatus_alive \<and> last_ping < now env - 30000) \<and>
         \<not> (w_lstatus w \<noteq> WorkerLStatus_normal \<and>
             (w_status w \<noteq> WorkerStatus_alive \<or> last_ping < now env - 10000))
           \<longrightarrow> w' = w)"
    if "w' \<in> set (qtopology_worker (db s'))" and "w_name w' = w_name w" for w'
  proof -
    have w': "w' = sweep_row env (snapshot env w) w" using own that by blast
    have st: "ws_status (snapshot env w) = w_status w" "ws_lstatus (snapshot env w) = w_lstatus w"
             "ws_name (snapshot env w) = w_name w"
      by (simp_all add: snapshot_def Let_def)
    show ?thesis
      unfolding w' sweep_row_def marks_dead_def resets_lstatus_def Let_def st ping
      by auto
  qed
  then show "map w_name (qtopology_worker (db (snd (disableDefunctWorkers env s)))) =
              map w_name (qtopology_worker (db s)) \<and>
            (\<forall>w' \<in> set (qtopology_worker (db (snd (disableDefunctWorkers env s)))).
               w_name w' = w_name w \<longrightarrow>
                 (w_status w = WorkerStatus_alive \<and> last_ping < now env - 30000
                    \<longrightarrow> w_status w' = WorkerStatus_dead) \<and>
                 (w_lstatus w \<noteq> WorkerLStatus_normal \<and>
                  (w_status w \<noteq> WorkerStatus_alive \<or> last_ping < now env - 10000)
                    \<longrightarrow> w_lstatus w' = WorkerLStatus_normal) \<and>
                 (\<not> (w_status w = WorkerStatus_alive \<and> last_ping < now env - 30000) \<and>
                  \<not> (w_lstatus w \<noteq> WorkerLStatus_normal \<and>
                      (w_status w \<noteq> WorkerStatus_alive \<or> last_ping < now env - 10000))
                    \<longrightarrow> w' = w))"
    unfolding post using names by blast
  qed
qed

theorem worker_liveness_sweep_witness:
  "distinct (map w_name (qtopology_worker (db (constructor ex_db)))) \<and>
   fst (disableDefunctWorkers (ex_env 100000) (constructor ex_db)) = None \<and>
   (\<exists>w' \<in> set (qtopology_worker (db (snd (disableDefunctWorkers (ex_env 100000) (constructor ex_db))))).
        w_name w' = ''w1'' \<and> w_status w' = WorkerStatus_dead \<and> w_lstatus w' = WorkerLStatus_normal)"
  using worker_liveness_sweep[where s = "constructor ex_db" and env = "ex_env 100000"
          and w = "\<lparr>w_name = ''w1'', w_status = ''alive'', w_lstatus = ''leader'', w_last_ping = Some 0\<rparr>"
          and last_ping = 0]
  by (simp add: ex_defs worker_sweep_defs)

subsection \<open>What the topology reassignment sweep does to the topology table\<close>

lemma refreshStatuses_throttled:
  "now env < next_refresh s \<Longrightarrow> refreshStatuses env s = (None, s)"
  by (simp add: refreshStatuses.simps)

lemma getTopologyStatusInternal_throttled:
  "now env < next_refresh s \<Longrightarrow>
     getTopologyStatusInternal env sql s =
       (case query env sql s of
          (Inl err, s2) \<Rightarrow> (Inl err, s2)
        | (Inr data, s2) \<Rightarrow> (Inr (map topology_status data), s2))"
  by (simp add: getTopologyStatusInternal.simps refreshStatuses_throttled topology_status_def
           split: prod.splits sum.splits)

lemma getTopologyStatus_throttled_Inr:
  assumes "now env < next_refresh s" and "getTopologyStatus env s = (Inr data, s')"
  shows "data = map (\<lambda>t. topology_status (t\<lparr>t_error := None\<rparr>)) (qtopology_topology (db s)) \<and>
         s' = s\<lparr>queries := Suc (queries s)\<rparr>"
  using assms
  by (auto simp: getTopologyStatus.simps getTopologyStatusInternal_throttled query_def Let_def
                 sql_select_topology_def
           split: if_splits prod.splits sum.splits)

lemma setTopologyStatus_None:
  "setTopologyStatus env uuid status error s = (None, s') \<Longrightarrow>
     qtopology_topology (db s') =
       map (\<lambda>t. if t_uuid t = uuid
                 then t\<lparr>t_status := status, t_last_ping := now env, t_error := error\<rparr> else t)
         (qtopology_topology (db s))"
  by (auto simp: setTopologyStatus_def simple_def query_def Let_def sql_update_topology_def
                 qtopology_sp_add_topology_history_def
           split: if_splits prod.splits sum.splits)

lemma unassign_item_None:
  assumes "(if ts_status ts = TopologyStatus_waiting \<and> ts_last_ping ts < now env - 30 * 1000
            then setTopologyStatus env (ts_uuid ts) TopologyStatus_unassigned None s
            else if ts_status ts = TopologyStatus_running
                    \<and> ts_worker ts \<in> set (map Some dead_workers)
            then setTopologyStatus env (ts_uuid ts) TopologyStatus_unassigned None s
            else (None, s)) = (None, s1)"
  shows "qtopology_topology (db s1) = map (reassign_row env dead_workers ts) (qtopology_topology (db s))"
  using assms
  by (auto simp: reassign_row_def[abs_def] reassigns_def split: if_splits dest!: setTopologyStatus_None)

lemma unassignWaitingTopologies_None:
  assumes "unassignWaitingTopologies env s = (None, s')"
    and "now env < next_refresh s"
    and "distinct (map t_uuid (qtopology_topology (db s)))"
  shows "qtopology_topology (db s') =
           map (\<lambda>t. reassign_row env (dead_names (qtopology_worker (db s)))
                       (topology_status (t\<lparr>t_error := None\<rparr>)) t)
               (qtopology_topology (db s))"
proof -
  let ?rows = "qtopology_topology (db s)"
  let ?dead = "dead_names (qtopology_worker (db s))"
  let ?item = "\<lambda>t. topology_status (t\<lparr>t_error := None\<rparr>)"
  let ?f = "\<lambda>topology s.
              if ts_status topology = TopologyStatus_waiting \<and> ts_last_ping topology < now env - 30 * 1000
              then setTopologyStatus env (ts_uuid topology) TopologyStatus_unassigned None s
              else if ts_status topology = TopologyStatus_running
                      \<and> ts_worker topology \<in> set (map Some ?dead)
              then setTopologyStatus env (ts_uuid topology) TopologyStatus_unassigned None s
              else (None, s)"
  obtain x s1 where g: "getWorkerStatusInternal env s = (x, s1)"
    by (cases "getWorkerStatusInternal env s")
  then obtain data_workers where x: "x = Inr data_workers"
    using assms(1) by (cases x) (auto simp: unassignWaitingTopologies.simps)
  have dw: "data_workers = map (snapshot env) (qtopology_worker (db s))"
    and s1: "s1 = s\<lparr>queries := Suc (queries s)\<rparr>"
    using getWorkerStatusInternal_Inr[of env s data_workers s1] g x by simp_all
  have dead: "map ws_name
                (filter (\<lambda>x. ws_status x = WorkerStatus_dead \<or> ws_status x = WorkerStatus_unloaded)
                   data_workers) = ?dead"
    unfolding dw dead_names_def by (simp add: filter_map comp_def snapshot_def Let_def)
  obtain y s2 where t: "getTopologyStatus env s1 = (y, s2)"
    by (cases "getTopologyStatus env s1")
  then obtain data where y: "y = Inr data"
    using assms(1) g x by (cases y) (auto simp: unassignWaitingTopologies.simps Let_def)
  have thr: "now env < next_refresh s1" using assms(2) s1 by simp
  have data: "data = map ?item ?rows" and s2: "db s2 = db s"
    using getTopologyStatus_throttled_Inr[OF thr, of data s2] t y s1 by simp_all
  have "each data ?f s2 = (None, s')"
    using assms(1) g x t y dead by (simp add: unassignWaitingTopologies.simps Let_def)
  then have tab: "qtopology_topology (db s') =
      map (\<lambda>r. foldl (\<lambda>r i. reassign_row env ?dead i r) r data) ?rows"
    using each_table[of ?f "\<lambda>s. qtopology_topology (db s)" "reassign_row env ?dead" data s2 s']
      unassign_item_None[where env = env and dead_workers = ?dead] s2 by simp
  have d: "distinct (map ts_uuid data)"
    using assms(3) data by (simp add: comp_def topology_status_def)
  have "foldl (\<lambda>r i. reassign_row env ?dead i r) r data = reassign_row env ?dead (?item r) r"
    if "r \<in> set ?rows" for r
    using foldl_own_key[of t_uuid "reassign_row env ?dead" ts_uuid data "?item r" r] d that data
    by (simp add: reassign_row_def topology_status_def)
  then show ?thesis using tab by simp
qed

text \<open>
  C2. Topology reassignment sweep: the sweep completes without an error when no
  statement fails; when it has completed without an error, every topology of the table
  it read is still in the table, under its uuid; a topology that
  was waiting with a last ping older than 30 seconds, or running on a worker that the
  worker table gives as dead or unloaded, is unassigned; any other topology has its row
  as it was. The sweep runs inside the refresh, which has advanced the deadline before;
  uuids are the key of the table.
\<close>

theorem topology_reassignment_sweep:
  assumes "distinct (map t_uuid (qtopology_topology (db s)))"
    and "now env < next_refresh s"
    and "t \<in> set (qtopology_topology (db s))"
  shows "((\<forall>n. \<not> db_fails env n) \<longrightarrow> fst (unassignWaitingTopologies env s) = None) \<and>
         (fst (unassignWaitingTopologies env s) = None \<longrightarrow>
            map t_uuid (qtopology_topology (db (snd (unassignWaitingTopologies env s)))) =
              map t_uuid (qtopology_topology (db s)) \<and>
            (\<forall>t' \<in> set (qtopology_topology (db (snd (unassignWaitingTopologies env s)))).
               t_uuid t' = t_uuid t \<longrightarrow>
                 (if t_status t = TopologyStatus_waiting \<and> t_last_ping t < now env - 30000 \<or>
                     t_status t = TopologyStatus_running \<and>
                     (\<exists>w \<in> set (qtopology_worker (db s)).
                        t_worker t = Some (w_name w) \<and>
                        (w_status w = WorkerStatus_dead \<or> w_status w = WorkerStatus_unloaded))
                  then t_status t' = TopologyStatus_unassigned
                  else t' = t)))"
proof (rule conjI)
  show "(\<forall>n. \<not> db_fails env n) \<longrightarrow> fst (unassignWaitingTopologies env s) = None"
    using unassignWaitingTopologies_succeeds assms(2) by blast
next
  show "fst (unassignWaitingTopologies env s) = None \<longrightarrow>
            map t_uuid (qtopology_topology (db (snd (unassignWaitingTopologies env s)))) =
              map t_uuid (qtopology_topology (db s)) \<and>
            (\<forall>t' \<in> set (qtopology_topology (db (snd (unassignWaitingTopologies env s)))).
               t_uuid t' = t_uuid t \<longrightarrow>
                 (if t_status t = TopologyStatus_waiting \<and> t_last_ping t < now env - 30000 \<or>
                     t_status t = TopologyStatus_running \<and>
                     (\<exists>w \<in> set (qtopology_worker (db s)).
                        t_worker t = Some (w_name w) \<and>
                        (w_status w = WorkerStatus_dead \<or> w_status w = WorkerStatus_unloaded))
                  then t_status t' = TopologyStatus_unassigned
                  else t' = t))"
  proof (rule impI)
  assume ok: "fst (unassignWaitingTopologies env s) = None"
  let ?rows = "qtopology_topology (db s)"
  let ?dead = "dead_names (qtopology_worker (db s))"
  let ?new = "\<lambda>t. reassign_row env ?dead (topology_status (t\<lparr>t_error := None\<rparr>)) t"
  obtain s' where r: "unassignWaitingTopologies env s = (None, s')"
    using ok by (cases "unassignWaitingTopologies env s") auto
  have post: "snd (unassignWaitingTopologies env s) = s'" using r by simp
  have tab: "qtopology_topology (db s') = map ?new ?rows"
    using unassignWaitingTopologies_None[OF r assms(2) assms(1)] .
  have uuid: "t_uuid (?new v) = t_uuid v" for v
    by (simp add: reassign_row_def)
  have names: "map t_uuid (qtopology_topology (db s')) = map t_uuid ?rows"
    unfolding tab by (simp add: comp_def uuid)
  have cond: "reassigns env ?dead (topology_status (t\<lparr>t_error := None\<rparr>)) \<longleftrightarrow>
                t_status t = TopologyStatus_waiting \<and> t_last_ping t < now env - 30000 \<or>
                t_status t = TopologyStatus_running \<and>
                (\<exists>w \<in> set (qtopology_worker (db s)).
                   t_worker t = Some (w_name w) \<and>
                   (w_status w = WorkerStatus_dead \<or> w_status w = WorkerStatus_unloaded))"
    by (auto simp: reassigns_def dead_names_def topology_status_def)
  have "if t_status t = TopologyStatus_waiting \<and> t_last_ping t < now env - 30000 \<or>
            t_status t = TopologyStatus_running \<and>
            (\<exists>w \<in> set (qtopology_worker (db s)).
               t_worker t = Some (w_name w) \<and>
               (w_status w = WorkerStatus_dead \<or> w_status w = WorkerStatus_unloaded))
        then t_status t' = TopologyStatus_unassigned
        else t' = t"
    if "t' \<in> set (qtopology_topology (db s'))" and "t_uuid t' = t_uuid t" for t'
  proof -
    from that(1) obtain v where v: "v \<in> set ?rows" and t': "t' = ?new v"
      unfolding tab by auto
    have "t_uuid v = t_uuid t" using that(2) t' uuid by simp
    then have "v = t" using distinct_key_eq[OF assms(1) v assms(3)] by simp
    then have "t' = ?new t" using t' by simp
    then show ?thesis
      unfolding cond[symmetric] by (simp add: reassign_row_def topology_status_def)
  qed
  then show "map t_uuid (qtopology_topology (db (snd (unassignWaitingTopologies env s)))) =
              map t_uuid (qtopology_topology (db s)) \<and>
            (\<forall>t' \<in> set (qtopology_topology (db (snd (unassignWaitingTopologies env s)))).
               t_uuid t' = t_uuid t \<longrightarrow>
                 (if t_status t = TopologyStatus_waiting \<and> t_last_ping t < now env - 30000 \<or>
                     t_status t = TopologyStatus_running \<and>
                     (\<exists>w \<in> set (qtopology_worker (db s)).
                        t_worker t = Some (w_name w) \<and>
                        (w_status w = WorkerStatus_dead \<or> w_status w = WorkerStatus_unloaded))
                  then t_status t' = TopologyStatus_unassigned
                  else t' = t))"
    unfolding post using names by blast
  qed
qed

text \<open>The definitions that evaluate the refresh and the topology sweep on a concrete state.\<close>

lemmas topology_sweep_defs =
  unassignWaitingTopologies.simps getTopologyStatus.simps getTopologyStatusInternal.simps
  refreshStatuses.simps sql_select_topology_def setTopologyStatus_def sql_update_topology_def
  qtopology_sp_add_topology_history_def

theorem topology_reassignment_sweep_witness:
  "fst (unassignWaitingTopologies (ex_env 100000)
          \<lparr>this_name = None, next_refresh = 101000, queries = 0,
           db = ex_db\<lparr>qtopology_worker :=
                  [\<lparr>w_name = ''w1'', w_status = ''dead'', w_lstatus = ''normal'', w_last_ping = Some 100000\<rparr>]\<rparr>\<rparr>) = None \<and>
   map t_status (qtopology_topology (db (snd (unassignWaitingTopologies (ex_env 100000)
          \<lparr>this_name = None, next_refresh = 101000, queries = 0,
           db = ex_db\<lparr>qtopology_worker :=
                  [\<lparr>w_name = ''w1'', w_status = ''dead'', w_lstatus = ''normal'', w_last_ping = Some 100000\<rparr>]\<rparr>\<rparr>)))) =
     [TopologyStatus_unassigned, TopologyStatus_unassigned]"
  using topology_reassignment_sweep[where s =
          "\<lparr>this_name = None, next_refresh = 101000, queries = 0,
           db = ex_db\<lparr>qtopology_worker :=
                  [\<lparr>w_name = ''w1'', w_status = ''dead'', w_lstatus = ''normal'', w_last_ping = Some 100000\<rparr>]\<rparr>\<rparr>"
          and env = "ex_env 100000"
          and t = "\<lparr>t_uuid = ''T2'', t_config = \<lparr>c_general = Some \<lparr>g_worker_affinity = None, g_weight = None\<rparr>, c_payload = ''''\<rparr>,
          t_status = ''running'', t_worker = Some ''w1'', t_weight = 1, t_worker_affinity = None,
          t_error = None, t_last_ping = 99000, t_enabled = 1\<rparr>"]
  by (simp add: ex_defs worker_sweep_defs topology_sweep_defs)

subsection \<open>The refresh throttle\<close>

lemma each_steps:
  assumes "\<And>x s r s'. f x s = (r, s') \<Longrightarrow> R s s'"
    and "\<And>s. R s s" and "\<And>a b c. R a b \<Longrightarrow> R b c \<Longrightarrow> R a c"
    and "each xs f s = (r, s')"
  shows "R s s'"
  using assms(4)
proof (induction xs arbitrary: s r s')
  case Nil
  then show ?case using assms(2) by simp
next
  case (Cons x xs)
  obtain e s1 where x: "f x s = (e, s1)" by (cases "f x s")
  obtain e' s2 where rest: "each xs f s1 = (e', s2)" by (cases "each xs f s1")
  have "s' = s2" using Cons.prems x rest by simp
  then show ?case using assms(1)[OF x] Cons.IH[OF rest] assms(3) by blast
qed





lemma getWorkerStatusInternal_frame:
  "getWorkerStatusInternal env s = (r, s') \<Longrightarrow>
     next_refresh s' = next_refresh s \<and> queries s' = Suc (queries s)"
  by (auto simp: getWorkerStatusInternal_def split: prod.splits sum.splits dest: query_frame)





lemma refreshStatuses_due:
  "\<not> now env < next_refresh s \<Longrightarrow>
     refreshStatuses env s =
       (case disableDefunctWorkers env (s\<lparr>next_refresh := now env + 1000\<rparr>) of
          (Some err, s1) \<Rightarrow> (Some err, s1)
        | (None, s1) \<Rightarrow> unassignWaitingTopologies env s1)"
  by (simp add: refreshStatuses.simps split: prod.splits option.splits)






subsection \<open>Leadership\<close>

lemma filter_eq_distinct:
  "distinct xs \<Longrightarrow> filter (\<lambda>x. x = l) xs = (if l \<in> set xs then [l] else [])"
  by (induction xs) auto

lemma first_counts_worker_statuses:
  "first_counts (filter (\<lambda>x. lc_lstatus x = l) (fst (qtopology_sp_worker_statuses d))) \<longleftrightarrow>
     (\<exists>w \<in> set (qtopology_worker d). w_lstatus w = l)"
proof -
  let ?ls = "remdups (map w_lstatus (qtopology_worker d))"
  let ?row = "\<lambda>l. \<lparr>lc_lstatus = l,
                    lc_cnt = int (length (filter (\<lambda>w. w_lstatus w = l) (qtopology_worker d)))\<rparr>"
  have "filter (\<lambda>x. lc_lstatus x = l) (map ?row ?ls) = map ?row (filter (\<lambda>x. x = l) ?ls)"
    by (simp add: filter_map comp_def)
  also have "\<dots> = (if l \<in> set ?ls then [?row l] else [])"
    by (simp add: filter_eq_distinct)
  finally have hits: "filter (\<lambda>x. lc_lstatus x = l) (fst (qtopology_sp_worker_statuses d)) =
      (if l \<in> set ?ls then [?row l] else [])"
    by (simp add: qtopology_sp_worker_statuses_def)
  have "(0 < length (filter (\<lambda>w. w_lstatus w = l) (qtopology_worker d))) \<longleftrightarrow>
          (\<exists>w \<in> set (qtopology_worker d). w_lstatus w = l)"
    by (auto simp: filter_empty_conv)
  then show ?thesis
    unfolding hits by (auto simp: first_counts_def)
qed

lemma getLeadershipStatus_eq:
  "getLeadershipStatus env s =
     (case refreshStatuses env s of
        (Some err, s1) \<Rightarrow> (Inl err, s1)
      | (None, s1) \<Rightarrow>
          if db_fails env (queries s1)
          then (Inl (PersistenceFailure (queries s1)), s1\<lparr>queries := Suc (queries s1)\<rparr>)
          else (Inr \<lparr>leadership = leadership_of (qtopology_worker (db s1))\<rparr>,
                s1\<lparr>queries := Suc (queries s1)\<rparr>))"
proof -
  have snd_sp: "snd (qtopology_sp_worker_statuses d) = d" for d
    by (simp add: qtopology_sp_worker_statuses_def)
  show ?thesis
    unfolding getLeadershipStatus_def query_eq
    by (auto simp: first_counts_worker_statuses leadership_of_def snd_sp
             split: prod.splits option.splits)
qed

text \<open>
  C4. Leadership aggregation: \<^verbatim>\<open>getLeadershipStatus\<close> runs the throttled refresh first and
  passes its error on; then it reads the worker set of the state the refresh left and
  reports ok if a worker has the lstatus leader, else pending if one has the lstatus
  candidate, else vacant; a failure of the read is passed on. It reports vacant exactly
  when no worker has the lstatus leader or candidate.
\<close>

theorem leadership_aggregation:
  "getLeadershipStatus env s =
     (case refreshStatuses env s of
        (Some err, s1) \<Rightarrow> (Inl err, s1)
      | (None, s1) \<Rightarrow>
          if db_fails env (queries s1)
          then (Inl (PersistenceFailure (queries s1)), s1\<lparr>queries := Suc (queries s1)\<rparr>)
          else (Inr \<lparr>leadership =
                       (if \<exists>w \<in> set (qtopology_worker (db s1)). w_lstatus w = WorkerLStatus_leader
                        then LeadershipStatus_ok
                        else if \<exists>w \<in> set (qtopology_worker (db s1)). w_lstatus w = WorkerLStatus_candidate
                        then LeadershipStatus_pending
                        else LeadershipStatus_vacant)\<rparr>,
                s1\<lparr>queries := Suc (queries s1)\<rparr>)) \<and>
   (\<forall>r s'. getLeadershipStatus env s = (Inr r, s') \<longrightarrow>
      (leadership r = LeadershipStatus_ok \<longleftrightarrow>
         (\<exists>w \<in> set (qtopology_worker (db (snd (refreshStatuses env s)))).
            w_lstatus w = WorkerLStatus_leader)) \<and>
      (leadership r = LeadershipStatus_vacant \<longleftrightarrow>
         \<not> (\<exists>w \<in> set (qtopology_worker (db (snd (refreshStatuses env s)))).
              w_lstatus w = WorkerLStatus_leader \<or> w_lstatus w = WorkerLStatus_candidate)))"
proof (intro conjI allI impI)
  show "getLeadershipStatus env s =
     (case refreshStatuses env s of
        (Some err, s1) \<Rightarrow> (Inl err, s1)
      | (None, s1) \<Rightarrow>
          if db_fails env (queries s1)
          then (Inl (PersistenceFailure (queries s1)), s1\<lparr>queries := Suc (queries s1)\<rparr>)
          else (Inr \<lparr>leadership =
                       (if \<exists>w \<in> set (qtopology_worker (db s1)). w_lstatus w = WorkerLStatus_leader
                        then LeadershipStatus_ok
                        else if \<exists>w \<in> set (qtopology_worker (db s1)). w_lstatus w = WorkerLStatus_candidate
                        then LeadershipStatus_pending
                        else LeadershipStatus_vacant)\<rparr>,
                s1\<lparr>queries := Suc (queries s1)\<rparr>))"
    unfolding getLeadershipStatus_eq leadership_of_def by simp
next
  fix r s'
  assume a: "getLeadershipStatus env s = (Inr r, s')"
  obtain e s1 where rf: "refreshStatuses env s = (e, s1)" by (cases "refreshStatuses env s")
  have r: "r = \<lparr>leadership = leadership_of (qtopology_worker (db s1))\<rparr>"
    using a rf unfolding getLeadershipStatus_eq by (auto split: option.splits if_splits)
  show "leadership r = LeadershipStatus_ok \<longleftrightarrow>
         (\<exists>w \<in> set (qtopology_worker (db (snd (refreshStatuses env s)))).
            w_lstatus w = WorkerLStatus_leader)"
    unfolding r rf by (simp add: leadership_of_def)
  show "leadership r = LeadershipStatus_vacant \<longleftrightarrow>
         \<not> (\<exists>w \<in> set (qtopology_worker (db (snd (refreshStatuses env s)))).
              w_lstatus w = WorkerLStatus_leader \<or> w_lstatus w = WorkerLStatus_candidate)"
    unfolding r rf by (auto simp: leadership_of_def)
qed

text \<open>
  The example at 100000: the refresh marks \<open>w1\<close> dead and takes its leadership away, and
  unassigns both topologies.
\<close>

lemma ex_refresh:
  "fst (refreshStatuses (ex_env 100000) (constructor ex_db)) = None \<and>
   qtopology_worker (db (snd (refreshStatuses (ex_env 100000) (constructor ex_db)))) =
     [\<lparr>w_name = ''w1'', w_status = ''dead'', w_lstatus = ''normal'', w_last_ping = Some 100000\<rparr>,
      \<lparr>w_name = ''w2'', w_status = ''alive'', w_lstatus = ''normal'', w_last_ping = Some 95000\<rparr>] \<and>
   map t_status (qtopology_topology (db (snd (refreshStatuses (ex_env 100000) (constructor ex_db))))) =
     [''unassigned'', ''unassigned''] \<and>
   queries (snd (refreshStatuses (ex_env 100000) (constructor ex_db))) = 7"
  by (simp add: ex_defs worker_sweep_defs topology_sweep_defs)

theorem leadership_aggregation_witness:
  "fst (getLeadershipStatus (ex_env 100000) (constructor ex_db)) =
     Inr \<lparr>leadership = LeadershipStatus_vacant\<rparr>"
proof -
  obtain e s1 where r: "refreshStatuses (ex_env 100000) (constructor ex_db) = (e, s1)"
    by (cases "refreshStatuses (ex_env 100000) (constructor ex_db)")
  have e: "e = None"
    and rows: "qtopology_worker (db s1) =
     [\<lparr>w_name = ''w1'', w_status = ''dead'', w_lstatus = ''normal'', w_last_ping = Some 100000\<rparr>,
      \<lparr>w_name = ''w2'', w_status = ''alive'', w_lstatus = ''normal'', w_last_ping = Some 95000\<rparr>]"
    using ex_refresh r by simp_all
  have nofail: "\<not> db_fails (ex_env 100000) (queries s1)" by (simp add: ex_env_def)
  show ?thesis
    using leadership_aggregation[of "ex_env 100000" "constructor ex_db"] r e rows nofail
    by simp
qed

subsection \<open>Status reads\<close>

lemma getTopologyStatusInternal_eq:
  "getTopologyStatusInternal env sql s =
     (case refreshStatuses env s of
        (Some err, s1) \<Rightarrow> (Inl err, s1)
      | (None, s1) \<Rightarrow>
          if db_fails env (queries s1)
          then (Inl (PersistenceFailure (queries s1)), s1\<lparr>queries := Suc (queries s1)\<rparr>)
          else (Inr (map topology_status (fst (sql (db s1)))),
                s1\<lparr>queries := Suc (queries s1), db := snd (sql (db s1))\<rparr>))"
  unfolding getTopologyStatusInternal.simps query_eq
  by (simp add: topology_status_def split: prod.splits option.splits)

lemma getWorkerStatusInternal_eq:
  "getWorkerStatusInternal env s =
     (if db_fails env (queries s)
      then (Inl (PersistenceFailure (queries s)), s\<lparr>queries := Suc (queries s)\<rparr>)
      else (Inr (map (snapshot env) (qtopology_worker (db s))), s\<lparr>queries := Suc (queries s)\<rparr>))"
  unfolding getWorkerStatusInternal_def query_eq
  by (simp add: sql_select_worker_def snapshot_def)

lemma getTopologyInfo_eq:
  "getTopologyInfo env uuid s =
     (if db_fails env (queries s)
      then (Inl (PersistenceFailure (queries s)), s\<lparr>queries := Suc (queries s)\<rparr>)
      else (case filter (\<lambda>t. t_uuid t = uuid) (qtopology_topology (db s)) of
              [] \<Rightarrow> (Inl (Error (''Requested topology not found: '' @ uuid)),
                     s\<lparr>queries := Suc (queries s)\<rparr>)
            | hit # rest \<Rightarrow>
                (Inr \<lparr>ti_enabled = t_enabled hit, ti_status = t_status hit, ti_uuid = t_uuid hit,
                      ti_error = t_error hit, ti_weight = t_weight hit,
                      ti_worker_affinity = t_worker_affinity hit, ti_worker = t_worker hit,
                      ti_last_ping = getDate env (t_last_ping hit),
                      ti_last_ping_d = t_last_ping hit, ti_config = t_config hit\<rparr>,
                 s\<lparr>queries := Suc (queries s)\<rparr>)))"
  unfolding getTopologyInfo_def query_eq
  by (simp add: sql_select_topology_def Let_def split: list.splits)




subsection \<open>Clearing a topology error\<close>

lemma filter_key_distinct:
  "distinct (map key xs) \<Longrightarrow> x \<in> set xs \<Longrightarrow> filter (\<lambda>y. key y = key x) xs = [x]"
proof (induction xs)
  case Nil
  then show ?case by simp
next
  case (Cons a xs)
  show ?case
  proof (cases "a = x")
    case True
    then have "\<forall>y \<in> set xs. key y \<noteq> key x" using Cons.prems by (auto simp: image_iff)
    then have "filter (\<lambda>y. key y = key x) xs = []" by (simp add: filter_empty_conv)
    then show ?thesis using True by simp
  next
    case False
    then have "x \<in> set xs" using Cons.prems by simp
    then have "key a \<noteq> key x" using Cons.prems by (auto simp: image_iff)
    then show ?thesis using Cons \<open>x \<in> set xs\<close> by simp
  qed
qed

lemma setTopologyStatus_eq:
  "setTopologyStatus env uuid status error s =
     (if db_fails env (queries s)
      then (Some (PersistenceFailure (queries s)), s\<lparr>queries := Suc (queries s)\<rparr>)
      else (None, s\<lparr>queries := Suc (queries s),
                    db := qtopology_sp_add_topology_history (now env) uuid
                            (sql_update_topology
                               (\<lambda>t. t\<lparr>t_status := status, t_last_ping := now env, t_error := error\<rparr>)
                               uuid (db s))\<rparr>))"
  unfolding setTopologyStatus_def query_eq by (simp add: simple_def)

text \<open>
  C6. \<^verbatim>\<open>clearTopologyError(uuid)\<close> on a stored topology. If its status is not error,
  the call fails and the database is as it was; the error is the one that says the
  topology is not marked as error, unless the read itself failed. If its status is
  error and the database fails neither the read nor the update, the call succeeds, and
  the topology has the status unassigned and no error; every other topology is as it
  was.
\<close>

theorem clearTopologyError_guard:
  assumes "distinct (map t_uuid (qtopology_topology (db s)))"
    and "t \<in> set (qtopology_topology (db s))"
    and "t_uuid t = uuid"
  shows "(t_status t \<noteq> TopologyStatus_error \<longrightarrow>
            fst (clearTopologyError env uuid s) =
              Some (if db_fails env (queries s) then PersistenceFailure (queries s)
                    else Error (''Specified topology is not marked as error: '' @ uuid)) \<and>
            db (snd (clearTopologyError env uuid s)) = db s) \<and>
         (t_status t = TopologyStatus_error \<and>
          \<not> db_fails env (queries s) \<and> \<not> db_fails env (Suc (queries s)) \<longrightarrow>
            fst (clearTopologyError env uuid s) = None \<and>
            qtopology_topology (db (snd (clearTopologyError env uuid s))) =
              map (\<lambda>x. if x = t
                        then t\<lparr>t_status := TopologyStatus_unassigned, t_last_ping := now env,
                               t_error := None\<rparr>
                        else x)
                  (qtopology_topology (db s)))"
proof -
  have hit: "filter (\<lambda>x. t_uuid x = uuid) (qtopology_topology (db s)) = [t]"
    using filter_key_distinct[OF assms(1,2)] assms(3) by simp
  have key: "(t_uuid x = uuid) = (x = t)" if "x \<in> set (qtopology_topology (db s))" for x
    using distinct_key_eq[OF assms(1) that assms(2)] assms(3) by auto
  have upd: "map (\<lambda>x. if t_uuid x = uuid then f x else x) (qtopology_topology (db s)) =
             map (\<lambda>x. if x = t then f t else x) (qtopology_topology (db s))" for f
    using key by (auto intro!: map_cong)
  show ?thesis
    unfolding clearTopologyError_def getTopologyInfo_eq hit
    by (simp add: setTopologyStatus_eq Let_def sql_update_topology_def
                  qtopology_sp_add_topology_history_def upd)
qed

theorem clearTopologyError_guard_witness:
  "fst (clearTopologyError (ex_env 100000) ''T2'' (constructor ex_db)) =
     Some (Error ''Specified topology is not marked as error: T2'') \<and>
   db (snd (clearTopologyError (ex_env 100000) ''T2'' (constructor ex_db))) = ex_db \<and>
   fst (clearTopologyError (ex_env 100000) ''T3''
          (constructor (ex_db\<lparr>qtopology_topology :=
             [\<lparr>t_uuid = ''T3'', t_config = \<lparr>c_general = None, c_payload = ''''\<rparr>,
               t_status = ''error'', t_worker = Some ''w2'', t_weight = 1, t_worker_affinity = None,
               t_error = Some ''crashed'', t_last_ping = 99000, t_enabled = 1\<rparr>]\<rparr>))) = None \<and>
   qtopology_topology (db (snd (clearTopologyError (ex_env 100000) ''T3''
          (constructor (ex_db\<lparr>qtopology_topology :=
             [\<lparr>t_uuid = ''T3'', t_config = \<lparr>c_general = None, c_payload = ''''\<rparr>,
               t_status = ''error'', t_worker = Some ''w2'', t_weight = 1, t_worker_affinity = None,
               t_error = Some ''crashed'', t_last_ping = 99000, t_enabled = 1\<rparr>]\<rparr>))))) =
     [\<lparr>t_uuid = ''T3'', t_config = \<lparr>c_general = None, c_payload = ''''\<rparr>,
       t_status = ''unassigned'', t_worker = Some ''w2'', t_weight = 1, t_worker_affinity = None,
       t_error = None, t_last_ping = 100000, t_enabled = 1\<rparr>]"
  using clearTopologyError_guard[of "constructor ex_db"
          "\<lparr>t_uuid = ''T2'', t_config = \<lparr>c_general = Some \<lparr>g_worker_affinity = None, g_weight = None\<rparr>, c_payload = ''''\<rparr>,
          t_status = ''running'', t_worker = Some ''w1'', t_weight = 1, t_worker_affinity = None,
          t_error = None, t_last_ping = 99000, t_enabled = 1\<rparr>" "''T2''" "ex_env 100000"]
    clearTopologyError_guard[of
          "constructor (ex_db\<lparr>qtopology_topology :=
             [\<lparr>t_uuid = ''T3'', t_config = \<lparr>c_general = None, c_payload = ''''\<rparr>,
               t_status = ''error'', t_worker = Some ''w2'', t_weight = 1, t_worker_affinity = None,
               t_error = Some ''crashed'', t_last_ping = 99000, t_enabled = 1\<rparr>]\<rparr>)"
          "\<lparr>t_uuid = ''T3'', t_config = \<lparr>c_general = None, c_payload = ''''\<rparr>,
               t_status = ''error'', t_worker = Some ''w2'', t_weight = 1, t_worker_affinity = None,
               t_error = Some ''crashed'', t_last_ping = 99000, t_enabled = 1\<rparr>"
          "''T3''" "ex_env 100000"]
  by (simp add: ex_defs)

subsection \<open>Registering a topology\<close>




subsection \<open>The mailbox\<close>

lemma delete_message_eq:
  "simple (query env (sql_delete_message item) s) =
     (if db_fails env (queries s)
      then (Some (PersistenceFailure (queries s)), s\<lparr>queries := Suc (queries s)\<rparr>)
      else (None, s\<lparr>queries := Suc (queries s),
                    db := (db s)\<lparr>qtopology_message :=
                             filter (\<lambda>m. m_id m \<noteq> item) (qtopology_message (db s))\<rparr>\<rparr>))"
  unfolding query_eq by (simp add: simple_def sql_delete_message_def)

text \<open>
  The deletes of a fetch: the \<open>k\<close>-th is the \<open>k\<close>-th statement after the fetch; no error
  is reported exactly when none of them fails, and then no row with a fetched id is left.
  Rows are only ever removed.
\<close>

lemma each_delete:
  assumes "each ids (\<lambda>item s. simple (query env (sql_delete_message item) s)) s = (e, s')"
  shows "(e = None \<longleftrightarrow> (\<forall>k < length ids. \<not> db_fails env (queries s + k))) \<and>
         (e = None \<longrightarrow> qtopology_message (db s') =
                          filter (\<lambda>m. m_id m \<notin> set ids) (qtopology_message (db s))) \<and>
         set (qtopology_message (db s')) \<subseteq> set (qtopology_message (db s)) \<and>
         queries s' = queries s + length ids \<and>
         message_auto_increment (db s') = message_auto_increment (db s)"
  using assms
proof (induction ids arbitrary: s e s')
  case Nil
  then show ?case by simp
next
  case (Cons item ids)
  obtain e1 s1 where d: "simple (query env (sql_delete_message item) s) = (e1, s1)"
    by (cases "simple (query env (sql_delete_message item) s)")
  obtain e2 s2 where r: "each ids (\<lambda>item s. simple (query env (sql_delete_message item) s)) s1 = (e2, s2)"
    by (cases "each ids (\<lambda>item s. simple (query env (sql_delete_message item) s)) s1")
  have e: "e = (case e1 of Some x \<Rightarrow> Some x | None \<Rightarrow> e2)" and s': "s' = s2"
    using Cons.prems d r by simp_all
  note ih = Cons.IH[OF r]
  have q1: "queries s1 = Suc (queries s)"
    using d by (auto simp: delete_message_eq split: if_splits)
  have e1: "e1 = None \<longleftrightarrow> \<not> db_fails env (queries s)"
    using d by (auto simp: delete_message_eq split: if_splits)
  have all: "(\<forall>k < Suc (length ids). \<not> db_fails env (queries s + k)) \<longleftrightarrow>
             \<not> db_fails env (queries s) \<and> (\<forall>k < length ids. \<not> db_fails env (Suc (queries s) + k))"
    by (auto simp: less_Suc_eq_0_disj)
  have m1: "set (qtopology_message (db s1)) \<subseteq> set (qtopology_message (db s))"
    and a1: "message_auto_increment (db s1) = message_auto_increment (db s)"
    using d by (auto simp: delete_message_eq split: if_splits)
  have m1': "qtopology_message (db s1) = filter (\<lambda>m. m_id m \<noteq> item) (qtopology_message (db s))"
    if "e1 = None"
    using d that by (auto simp: delete_message_eq split: if_splits)
  show ?case
  proof (intro conjI impI)
    show "e = None \<longleftrightarrow> (\<forall>k < length (item # ids). \<not> db_fails env (queries s + k))"
      using e e1 ih q1 all by (auto split: option.splits)
    show "qtopology_message (db s') =
            filter (\<lambda>m. m_id m \<notin> set (item # ids)) (qtopology_message (db s))" if "e = None"
    proof -
      have "e1 = None" "e2 = None" using that e by (auto split: option.splits)
      then show ?thesis using ih m1' s' by (auto intro: filter_cong)
    qed
    show "set (qtopology_message (db s')) \<subseteq> set (qtopology_message (db s))"
      using ih m1 s' by auto
    show "queries s' = queries s + length (item # ids)" using ih q1 s' by simp
    show "message_auto_increment (db s') = message_auto_increment (db s)" using ih a1 s' by simp
  qed
qed

lemma getMessages_eq:
  "getMessages env name s =
     (if db_fails env (queries s)
      then ((Some (PersistenceFailure (queries s)), None), s\<lparr>queries := Suc (queries s)\<rparr>)
      else (case each (map m_id (fetched env name s))
                   (\<lambda>item s. simple (query env (sql_delete_message item) s))
                   (s\<lparr>queries := Suc (queries s)\<rparr>) of
              (err, s2) \<Rightarrow> ((err, Some (map message_of (fetched env name s))), s2)))"
  by (simp add: getMessages_def query_eq fetched_def message_of_def
        qtopology_sp_messages_for_worker_def Let_def split: prod.splits)

text \<open>
  C9. Whenever the fetch of \<^verbatim>\<open>getMessages\<close> succeeds, the callback receives the list of
  all fetched messages, whether or not a delete fails; it receives an error with it
  exactly when one of the deletes fails.
\<close>

theorem getMessages_list_with_error:
  assumes "\<not> db_fails env (queries s)"
  shows "snd (fst (getMessages env name s)) = Some (map message_of (fetched env name s)) \<and>
         ((\<exists>err. fst (fst (getMessages env name s)) = Some err) \<longleftrightarrow>
            (\<exists>k < length (fetched env name s). db_fails env (Suc (queries s) + k)))"
proof -
  let ?s1 = "s\<lparr>queries := Suc (queries s)\<rparr>"
  obtain e s2 where d: "each (map m_id (fetched env name s))
      (\<lambda>item s. simple (query env (sql_delete_message item) s)) ?s1 = (e, s2)"
    by (cases "each (map m_id (fetched env name s))
      (\<lambda>item s. simple (query env (sql_delete_message item) s)) ?s1")
  have g: "getMessages env name s = ((e, Some (map message_of (fetched env name s))), s2)"
    using assms d by (simp add: getMessages_eq)
  have "e = None \<longleftrightarrow> (\<forall>k < length (fetched env name s). \<not> db_fails env (Suc (queries s) + k))"
    using each_delete[OF d] by simp
  then show ?thesis using g by auto
qed

theorem getMessages_list_with_error_witness:
  "getMessages \<lparr>now = 100, db_fails = (\<lambda>n. n = 1), getDate = (\<lambda>d. 1)\<rparr> ''w1''
     (constructor (ex_db\<lparr>qtopology_message :=
        [\<lparr>m_id = 0, m_worker = ''w1'', m_cmd = ''shutdown'', m_content = ''{}'',
          m_created = 50, m_valid_until = 60050\<rparr>], message_auto_increment := 1\<rparr>)) =
   ((Some (PersistenceFailure 1),
     Some [\<lparr>srm_cmd = ''shutdown'', srm_content = ''{}'', srm_created = 50\<rparr>]),
    (constructor (ex_db\<lparr>qtopology_message :=
        [\<lparr>m_id = 0, m_worker = ''w1'', m_cmd = ''shutdown'', m_content = ''{}'',
          m_created = 50, m_valid_until = 60050\<rparr>], message_auto_increment := 1\<rparr>))\<lparr>queries := 2\<rparr>)"
  using getMessages_list_with_error[of "\<lparr>now = 100, db_fails = (\<lambda>n. n = 1), getDate = (\<lambda>d. 1)\<rparr>"
     "constructor (ex_db\<lparr>qtopology_message :=
        [\<lparr>m_id = 0, m_worker = ''w1'', m_cmd = ''shutdown'', m_content = ''{}'',
          m_created = 50, m_valid_until = 60050\<rparr>], message_auto_increment := 1\<rparr>)" "''w1''"]
  by (simp add: getMessages_eq delete_message_eq fetched_def message_of_def
        qtopology_sp_messages_for_worker_def ex_defs)

subsection \<open>History\<close>


lemma getTopologyHistory_eq:
  "getTopologyHistory env uuid s =
     (if db_fails env (queries s)
      then (Inl (PersistenceFailure (queries s)), s\<lparr>queries := Suc (queries s)\<rparr>)
      else (Inr (take 100 (sort_key (\<lambda>x. - th_ts x)
                   (filter (\<lambda>x. th_uuid x = uuid) (qtopology_topology_history (db s))))),
            s\<lparr>queries := Suc (queries s)\<rparr>))"
  by (simp add: getTopologyHistory_def query_eq sql_select_topology_history_def Let_def)

lemma getWorkerHistory_eq:
  "getWorkerHistory env name s =
     (if db_fails env (queries s)
      then (Inl (PersistenceFailure (queries s)), s\<lparr>queries := Suc (queries s)\<rparr>)
      else (Inr (take 100 (sort_key (\<lambda>x. - wh_ts x)
                   (filter (\<lambda>x. wh_name x = name) (qtopology_worker_history (db s))))),
            s\<lparr>queries := Suc (queries s)\<rparr>))"
  by (simp add: getWorkerHistory_def query_eq sql_select_worker_history_def Let_def)



subsection \<open>Messages are not delivered twice\<close>

lemma sendMessageToWorker_eq:
  "sendMessageToWorker env worker cmd content valid_msec s =
     (if db_fails env (queries s)
      then (Some (PersistenceFailure (queries s)), s\<lparr>queries := Suc (queries s)\<rparr>)
      else (None, s\<lparr>queries := Suc (queries s),
                    db := (db s)\<lparr>qtopology_message := qtopology_message (db s) @
                             [\<lparr>m_id = message_auto_increment (db s), m_worker = worker, m_cmd = cmd,
                               m_content = content, m_created = now env,
                               m_valid_until = now env + valid_msec\<rparr>],
                           message_auto_increment := Suc (message_auto_increment (db s))\<rparr>\<rparr>))"
  by (simp add: sendMessageToWorker_def query_eq simple_def sql_insert_message_def)

lemma gone_send: "gone D s \<Longrightarrow> gone D (snd (sendMessageToWorker env worker cmd content valid_msec s))"
  by (auto simp: sendMessageToWorker_eq gone_def less_Suc_eq)

lemma gone_get:
  assumes "gone D s"
  shows "gone D (snd (getMessages env name s))"
proof (cases "db_fails env (queries s)")
  case True
  then show ?thesis using assms by (simp add: getMessages_eq gone_def)
next
  case False
  let ?s1 = "s\<lparr>queries := Suc (queries s)\<rparr>"
  obtain e s2 where d: "each (map m_id (fetched env name s))
      (\<lambda>item s. simple (query env (sql_delete_message item) s)) ?s1 = (e, s2)"
    by (cases "each (map m_id (fetched env name s))
      (\<lambda>item s. simple (query env (sql_delete_message item) s)) ?s1")
  have "set (qtopology_message (db s2)) \<subseteq> set (qtopology_message (db s))"
    and "message_auto_increment (db s2) = message_auto_increment (db s)"
    using each_delete[OF d] by simp_all
  moreover have "snd (getMessages env name s) = s2"
    using False d by (simp add: getMessages_eq)
  ultimately show ?thesis using assms by (auto simp: gone_def)
qed

lemma gone_later: "later s s' \<Longrightarrow> gone D s \<Longrightarrow> gone D s'"
proof (induction rule: later.induct)
  case (same s)
  then show ?case by simp
next
  case (send s s1 env worker cmd content valid_msec)
  then show ?case by (simp add: gone_send)
next
  case (get s s1 env name)
  then show ?case by (simp add: gone_get)
next
  case (other s s1 s2)
  then show ?case by (simp add: gone_def keeps_mailbox_def)
qed

lemma fetched_subset: "set (fetched env name s) \<subseteq> set (qtopology_message (db s))"
  by (auto simp: fetched_def qtopology_sp_messages_for_worker_def)

lemma keeps_mailbox_refl: "keeps_mailbox s s"
  by (simp add: keeps_mailbox_def)

lemma keeps_mailbox_trans: "keeps_mailbox a b \<Longrightarrow> keeps_mailbox b c \<Longrightarrow> keeps_mailbox a c"
  by (simp add: keeps_mailbox_def)

lemma series_steps:
  assumes "\<And>t s r s'. t \<in> set tasks \<Longrightarrow> t s = (r, s') \<Longrightarrow> R s s'"
    and "\<And>s. R s s" and "\<And>a b c. R a b \<Longrightarrow> R b c \<Longrightarrow> R a c"
    and "series tasks s = (r, s')"
  shows "R s s'"
  using assms(1,4)
proof (induction tasks arbitrary: s)
  case Nil
  then show ?case using assms(2) by simp
next
  case (Cons t tasks)
  obtain e s1 where t: "t s = (e, s1)" by (cases "t s")
  have first: "R s s1" using Cons.prems(1)[of t s e s1] t by simp
  show ?case
  proof (cases e)
    case None
    then have "series tasks s1 = (r, s')" using Cons.prems(2) t by simp
    then have "R s1 s'" using Cons.IH[of s1] Cons.prems(1) by (meson list.set_intros(2))
    then show ?thesis using first assms(3) by blast
  next
    case (Some err)
    then show ?thesis using Cons.prems(2) t first by simp
  qed
qed

lemma setWorkerStatus_keeps: "setWorkerStatus env name status s = (r, s') \<Longrightarrow> keeps_mailbox s s'"
  by (auto simp: setWorkerStatus_def query_eq simple_def keeps_mailbox_def sql_update_worker_def
                 qtopology_sp_add_worker_history_def split: if_splits)

lemma setWorkerLStatus_keeps: "setWorkerLStatus env name lstatus s = (r, s') \<Longrightarrow> keeps_mailbox s s'"
  by (auto simp: setWorkerLStatus_def query_eq simple_def keeps_mailbox_def sql_update_worker_def
                 qtopology_sp_add_worker_history_def split: if_splits)

lemma setTopologyStatus_keeps:
  "setTopologyStatus env uuid status error s = (r, s') \<Longrightarrow> keeps_mailbox s s'"
  by (auto simp: setTopologyStatus_eq keeps_mailbox_def sql_update_topology_def
                 qtopology_sp_add_topology_history_def split: if_splits)

lemma getWorkerStatusInternal_keeps:
  "getWorkerStatusInternal env s = (r, s') \<Longrightarrow> keeps_mailbox s s'"
  by (auto simp: getWorkerStatusInternal_eq keeps_mailbox_def split: if_splits)

lemma disableDefunctWorkerSingle_keeps:
  assumes "disableDefunctWorkerSingle env worker s = (r, s')"
  shows "keeps_mailbox s s'"
  using assms unfolding disableDefunctWorkerSingle_def Let_def
  by (rule series_steps[rotated 3])
     (auto simp: keeps_mailbox_refl split: if_splits
           dest: setWorkerStatus_keeps setWorkerLStatus_keeps keeps_mailbox_trans)

lemma disableDefunctWorkers_keeps:
  assumes "disableDefunctWorkers env s = (r, s')"
  shows "keeps_mailbox s s'"
proof -
  obtain x s1 where g: "getWorkerStatusInternal env s = (x, s1)"
    by (cases "getWorkerStatusInternal env s")
  have s1: "keeps_mailbox s s1" using g by (rule getWorkerStatusInternal_keeps)
  show ?thesis
  proof (cases x)
    case (Inl err)
    then show ?thesis using assms g s1 by (simp add: disableDefunctWorkers_def)
  next
    case (Inr data)
    then have "each data (disableDefunctWorkerSingle env) s1 = (r, s')"
      using assms g by (simp add: disableDefunctWorkers_def)
    then have "keeps_mailbox s1 s'"
      using each_steps[of "disableDefunctWorkerSingle env" keeps_mailbox data s1 r s']
        disableDefunctWorkerSingle_keeps keeps_mailbox_refl keeps_mailbox_trans by blast
    then show ?thesis using s1 keeps_mailbox_trans by blast
  qed
qed

lemma select_topology_keeps:
  "query env (sql_select_topology columns matches) s = (r, s') \<Longrightarrow> keeps_mailbox s s'"
  by (auto simp: query_eq sql_select_topology_def keeps_mailbox_def split: if_splits)

lemma unassignWaitingTopologies_throttled_keeps:
  assumes "now env < next_refresh s" and "unassignWaitingTopologies env s = (r, s')"
  shows "keeps_mailbox s s'"
proof -
  obtain x s1 where g: "getWorkerStatusInternal env s = (x, s1)"
    by (cases "getWorkerStatusInternal env s")
  have s1: "keeps_mailbox s s1" using g by (rule getWorkerStatusInternal_keeps)
  show ?thesis
  proof (cases x)
    case (Inl err)
    then show ?thesis using assms(2) g s1 by (simp add: unassignWaitingTopologies.simps)
  next
    case (Inr data_workers)
    have thr: "now env < next_refresh s1"
      using assms(1) getWorkerStatusInternal_frame[OF g] by simp
    obtain y s2 where t: "getTopologyStatus env s1 = (y, s2)"
      by (cases "getTopologyStatus env s1")
    have s2: "keeps_mailbox s1 s2"
      using t thr
      by (auto simp: getTopologyStatus.simps getTopologyStatusInternal_throttled
               split: prod.splits sum.splits dest: select_topology_keeps)
    show ?thesis
    proof (cases y)
      case (Inl err)
      then show ?thesis
        using assms(2) g Inr t s1 s2 keeps_mailbox_trans
        by (auto simp: unassignWaitingTopologies.simps Let_def)
    next
      case (Inr data)
      have "\<exists>f. each data f s2 = (r, s') \<and> (\<forall>x s r s'. f x s = (r, s') \<longrightarrow> keeps_mailbox s s')"
        using assms(2) g \<open>x = Inr data_workers\<close> t Inr
        by (auto simp: unassignWaitingTopologies.simps Let_def keeps_mailbox_refl
                 split: if_splits dest: setTopologyStatus_keeps
                 intro!: exI[of _ "\<lambda>topology s. if _ topology then _ topology s else _ topology s"])
      then obtain f where "each data f s2 = (r, s')"
        and "\<And>x s r s'. f x s = (r, s') \<Longrightarrow> keeps_mailbox s s'"
        by blast
      then have "keeps_mailbox s2 s'"
        using each_steps[of f keeps_mailbox data s2 r s'] keeps_mailbox_refl keeps_mailbox_trans
        by blast
      then show ?thesis using s1 s2 keeps_mailbox_trans by blast
    qed
  qed
qed

lemma refreshStatuses_keeps: "keeps_mailbox s (snd (refreshStatuses env s))"
proof (cases "now env < next_refresh s")
  case True
  then show ?thesis by (simp add: refreshStatuses_throttled keeps_mailbox_refl)
next
  case False
  let ?s0 = "s\<lparr>next_refresh := now env + 1000\<rparr>"
  obtain e s1 where d: "disableDefunctWorkers env ?s0 = (e, s1)"
    by (cases "disableDefunctWorkers env ?s0")
  have k1: "keeps_mailbox s s1"
    using disableDefunctWorkers_keeps[OF d] by (simp add: keeps_mailbox_def)
  show ?thesis
  proof (cases e)
    case (Some err)
    then show ?thesis using d k1 False by (simp add: refreshStatuses_due)
  next
    case None
    obtain r s2 where u: "unassignWaitingTopologies env s1 = (r, s2)"
      by (cases "unassignWaitingTopologies env s1")
    have "now env < next_refresh s1"
      using disableDefunctWorkers_next_refresh[OF d] by simp
    then have "keeps_mailbox s1 s2"
      using unassignWaitingTopologies_throttled_keeps u by blast
    then show ?thesis
      using None d u k1 False keeps_mailbox_trans by (auto simp: refreshStatuses_due)
  qed
qed

text \<open>The methods that read and write workers and topologies leave the mailbox alone.\<close>

lemma methods_keep_mailbox:
  "keeps_mailbox s (snd (refreshStatuses env s))"
  "keeps_mailbox s (snd (getWorkerStatus env s))"
  "keeps_mailbox s (snd (getTopologyStatus env s))"
  "keeps_mailbox s (snd (getTopologiesForWorker env name s))"
  "keeps_mailbox s (snd (getTopologyInfo env uuid s))"
  "keeps_mailbox s (snd (getLeadershipStatus env s))"
  "keeps_mailbox s (snd (setWorkerStatus env name status s))"
  "keeps_mailbox s (snd (setWorkerLStatus env name status s))"
  "keeps_mailbox s (snd (setTopologyStatus env uuid status error s))"
  "keeps_mailbox s (snd (clearTopologyError env uuid s))"
  "keeps_mailbox s (snd (registerTopology env uuid config s))"
  "keeps_mailbox s (snd (getTopologyHistory env uuid s))"
  "keeps_mailbox s (snd (getWorkerHistory env name s))"
proof -
  note r = refreshStatuses_keeps[of s env]
  obtain e s1 where rf: "refreshStatuses env s = (e, s1)" by (cases "refreshStatuses env s")
  have k1: "keeps_mailbox s s1" using r rf by simp
  show "keeps_mailbox s (snd (refreshStatuses env s))" by (rule r)
  show "keeps_mailbox s (snd (getWorkerStatus env s))"
    using k1 rf by (auto simp: getWorkerStatus_def getWorkerStatusInternal_eq keeps_mailbox_def
                         split: option.splits)
  show "keeps_mailbox s (snd (getTopologyStatus env s))"
    using k1 rf by (auto simp: getTopologyStatus.simps getTopologyStatusInternal_eq keeps_mailbox_def
                               sql_select_topology_def split: option.splits)
  show "keeps_mailbox s (snd (getTopologiesForWorker env name s))"
    using k1 rf by (auto simp: getTopologiesForWorker_def getTopologyStatusInternal_eq keeps_mailbox_def
                               sql_select_topology_def split: option.splits)
  show info: "keeps_mailbox s (snd (getTopologyInfo env uuid s))" for s
    by (auto simp: getTopologyInfo_eq keeps_mailbox_def split: list.splits)
  show "keeps_mailbox s (snd (getLeadershipStatus env s))"
    using k1 rf by (auto simp: getLeadershipStatus_eq keeps_mailbox_def split: option.splits)
  show "keeps_mailbox s (snd (setWorkerStatus env name status s))"
    using setWorkerStatus_keeps by (metis prod.collapse)
  show "keeps_mailbox s (snd (setWorkerLStatus env name status s))"
    using setWorkerLStatus_keeps by (metis prod.collapse)
  show sts: "keeps_mailbox s (snd (setTopologyStatus env uuid status error s))" for s status error
    using setTopologyStatus_keeps by (metis prod.collapse)
  show "keeps_mailbox s (snd (clearTopologyError env uuid s))"
  proof -
    obtain x s2 where g: "getTopologyInfo env uuid s = (x, s2)" by (cases "getTopologyInfo env uuid s")
    have "keeps_mailbox s s2" using info[of s] g by simp
    then show ?thesis
      using g sts[of s2 TopologyStatus_unassigned None] keeps_mailbox_trans
      by (auto simp: clearTopologyError_def Let_def split: sum.splits)
  qed
  show "keeps_mailbox s (snd (registerTopology env uuid config s))"
    by (auto simp: registerTopology_def query_eq simple_def keeps_mailbox_def Let_def
                   qtopology_sp_register_topology_def sql_update_topology_def
             split: option.splits)
  show "keeps_mailbox s (snd (getTopologyHistory env uuid s))"
    by (simp add: getTopologyHistory_eq keeps_mailbox_def)
  show "keeps_mailbox s (snd (getWorkerHistory env name s))"
    by (simp add: getWorkerHistory_eq keeps_mailbox_def)
qed

lemma topology_writes_keep_mailbox:
  "keeps_mailbox s (snd (assignTopology env uuid name s))"
  "keeps_mailbox s (snd (disableTopology env uuid s))"
  "keeps_mailbox s (snd (enableTopology env uuid s))"
  "keeps_mailbox s (snd (deleteTopology env uuid s))"
  by (simp_all add: assignTopology_def disableTopology_def enableTopology_def deleteTopology_def
        query_eq simple_def keeps_mailbox_def sql_update_topology_def sql_delete_topology_def
        qtopology_sp_add_topology_history_def)

lemma deleteWorker_keeps_mailbox: "keeps_mailbox s (snd (deleteWorker env name s))"
proof -
  obtain x s1 where g: "getWorkerStatus env s = (x, s1)" by (cases "getWorkerStatus env s")
  have k1: "keeps_mailbox s s1" using methods_keep_mailbox(2)[of s env] g by simp
  have "keeps_mailbox s1 (snd (deleteWorker env name s))"
    using g
    by (auto simp: deleteWorker_def query_eq simple_def keeps_mailbox_def sql_delete_worker_def
             split: sum.splits list.splits)
  then show ?thesis using k1 keeps_mailbox_trans by blast
qed

text \<open>The two methods that stop work do it by sending a message.\<close>

lemma stopping_is_later:
  "later s (snd (shutDownWorker env name s))"
  "later s (snd (stopTopology env uuid s))"
proof -
  show "later s (snd (shutDownWorker env name s))"
    unfolding shutDownWorker_def by (rule later.send[OF later.same])
  obtain x s1 where g: "getTopologyInfo env uuid s = (x, s1)" by (cases "getTopologyInfo env uuid s")
  have l1: "later s s1"
    using methods_keep_mailbox(5)[of s env uuid] g later.other[OF later.same] by simp
  obtain e s2 where d: "disableTopology env uuid s1 = (e, s2)" by (cases "disableTopology env uuid s1")
  have l2: "later s s2"
    using topology_writes_keep_mailbox(2)[of s1 env uuid] d later.other[OF l1] by simp
  show "later s (snd (stopTopology env uuid s))"
    using g d l1 l2 later.send[OF l2]
    by (auto simp: stopTopology_def split: sum.splits option.splits)
qed

text \<open>
  C7. A successful \<^verbatim>\<open>getMessages\<close> returns the fetched messages and deletes their rows:
  no row with a fetched id is left. In every later state, a \<^verbatim>\<open>getMessages\<close> for the
  worker (or any worker) fetches no row with one of these ids, so none of the messages
  is returned again. A call is successful when neither the fetch nor a delete failed.
\<close>

theorem getMessages_no_redelivery:
  assumes "\<forall>m \<in> set (qtopology_message (db s)). m_id m < message_auto_increment (db s)"
    and "getMessages env name s = ((None, Some res), s')"
    and "later s' s''"
  shows "res = map message_of (fetched env name s) \<and>
         qtopology_message (db s') =
           filter (\<lambda>m. m_id m \<notin> m_id ` set (fetched env name s)) (qtopology_message (db s)) \<and>
         m_id ` set (fetched env'' name'' s'') \<inter> m_id ` set (fetched env name s) = {}"
proof -
  let ?D = "m_id ` set (fetched env name s)"
  let ?s1 = "s\<lparr>queries := Suc (queries s)\<rparr>"
  have nofail: "\<not> db_fails env (queries s)"
    using assms(2) by (auto simp: getMessages_eq split: if_splits)
  obtain e s2 where d: "each (map m_id (fetched env name s))
      (\<lambda>item s. simple (query env (sql_delete_message item) s)) ?s1 = (e, s2)"
    by (cases "each (map m_id (fetched env name s))
      (\<lambda>item s. simple (query env (sql_delete_message item) s)) ?s1")
  have g: "e = None" "s2 = s'" "res = map message_of (fetched env name s)"
    using assms(2) nofail d by (simp_all add: getMessages_eq)
  have tab: "qtopology_message (db s') = filter (\<lambda>m. m_id m \<notin> ?D) (qtopology_message (db s))"
    and ctr: "message_auto_increment (db s') = message_auto_increment (db s)"
    using each_delete[OF d] g by simp_all
  have "gone ?D s'"
    using assms(1) fetched_subset[of env name s] by (auto simp: gone_def tab ctr)
  then have "gone ?D s''" using assms(3) gone_later by blast
  then have "m_id ` set (fetched env'' name'' s'') \<inter> ?D = {}"
    using fetched_subset[of env'' name'' s''] by (auto simp: gone_def)
  then show ?thesis using g tab by simp
qed

theorem getMessages_no_redelivery_witness:
  "fst (getMessages (ex_env 100) ''w1''
          (constructor (ex_db\<lparr>qtopology_message :=
             [\<lparr>m_id = 0, m_worker = ''w1'', m_cmd = ''shutdown'', m_content = ''{}'',
               m_created = 50, m_valid_until = 60050\<rparr>], message_auto_increment := 1\<rparr>))) =
     (None, Some [\<lparr>srm_cmd = ''shutdown'', srm_content = ''{}'', srm_created = 50\<rparr>]) \<and>
   fst (getMessages (ex_env 200) ''w1''
          (snd (sendMessageToWorker (ex_env 150) ''w1'' ''stop_topology'' ''{}'' 30000
             (snd (getMessages (ex_env 100) ''w1''
                (constructor (ex_db\<lparr>qtopology_message :=
                   [\<lparr>m_id = 0, m_worker = ''w1'', m_cmd = ''shutdown'', m_content = ''{}'',
                     m_created = 50, m_valid_until = 60050\<rparr>], message_auto_increment := 1\<rparr>))))))) =
     (None, Some [\<lparr>srm_cmd = ''stop_topology'', srm_content = ''{}'', srm_created = 150\<rparr>]) \<and>
   m_id ` set (fetched (ex_env 200) ''w1''
          (snd (sendMessageToWorker (ex_env 150) ''w1'' ''stop_topology'' ''{}'' 30000
             (snd (getMessages (ex_env 100) ''w1''
                (constructor (ex_db\<lparr>qtopology_message :=
                   [\<lparr>m_id = 0, m_worker = ''w1'', m_cmd = ''shutdown'', m_content = ''{}'',
                     m_created = 50, m_valid_until = 60050\<rparr>], message_auto_increment := 1\<rparr>))))))) \<inter>
   m_id ` set (fetched (ex_env 100) ''w1''
          (constructor (ex_db\<lparr>qtopology_message :=
             [\<lparr>m_id = 0, m_worker = ''w1'', m_cmd = ''shutdown'', m_content = ''{}'',
               m_created = 50, m_valid_until = 60050\<rparr>], message_auto_increment := 1\<rparr>))) = {}"
proof -
  let ?s0 = "constructor (ex_db\<lparr>qtopology_message :=
             [\<lparr>m_id = 0, m_worker = ''w1'', m_cmd = ''shutdown'', m_content = ''{}'',
               m_created = 50, m_valid_until = 60050\<rparr>], message_auto_increment := 1\<rparr>)"
  let ?res = "[\<lparr>srm_cmd = ''shutdown'', srm_content = ''{}'', srm_created = 50\<rparr>]"
  let ?s1 = "snd (getMessages (ex_env 100) ''w1'' ?s0)"
  let ?s2 = "snd (sendMessageToWorker (ex_env 150) ''w1'' ''stop_topology'' ''{}'' 30000 ?s1)"
  have first: "fst (getMessages (ex_env 100) ''w1'' ?s0) = (None, Some ?res)"
    by (simp add: getMessages_eq delete_message_eq fetched_def message_of_def
          qtopology_sp_messages_for_worker_def ex_defs)
  then have g: "getMessages (ex_env 100) ''w1'' ?s0 = ((None, Some ?res), ?s1)"
    by (metis prod.collapse)
  have l: "later ?s1 ?s2" by (rule later.send[OF later.same])
  have ids: "\<forall>m \<in> set (qtopology_message (db ?s0)). m_id m < message_auto_increment (db ?s0)"
    by (simp add: ex_defs)
  have second: "fst (getMessages (ex_env 200) ''w1'' ?s2) =
     (None, Some [\<lparr>srm_cmd = ''stop_topology'', srm_content = ''{}'', srm_created = 150\<rparr>])"
    by (simp add: getMessages_eq sendMessageToWorker_eq delete_message_eq fetched_def message_of_def
          qtopology_sp_messages_for_worker_def ex_defs)
  show ?thesis
    using getMessages_no_redelivery[OF ids g l, of "ex_env 200" "''w1''"] first second by blast
qed

end
